theory Spec2Isabelle
  imports Complex_Main "HOL-Library.Multiset" "HOL-Library.Char_ord" "HOL-Library.List_Lexorder"
begin

section \<open>Exceptions\<close>

text \<open>
  The build script is Python. Every exception that one of the modelled functions can raise
  is a value of \<open>error\<close>; a function that can raise returns \<open>error + 'a\<close>, with \<open>Inl\<close>
  for the exception that ends the run (nothing in \<^verbatim>\<open>build.py\<close> catches any of them).
\<close>

datatype error = TypeError | ZeroDivisionError | IndexError | KeyError | ValueError
  | NotADirectoryError

section \<open>Staleness check\<close>

text \<open>
  What \<^verbatim>\<open>os.listdir\<close>, \<^verbatim>\<open>os.path.isdir\<close> and \<^verbatim>\<open>os.path.getctime\<close> show of a path: a plain
  file with its ctime, or a directory with its entries in listing order. The time stamps
  are Python floats, of which only the order is used; they are any linear order here.
\<close>

datatype 't node = File 't | Directory "'t node list"

text \<open>Python's \<^verbatim>\<open>min\<close> and \<^verbatim>\<open>max\<close> of a list: \<^verbatim>\<open>ValueError\<close> on the empty list.\<close>

fun py_min :: "'t::linorder list \<Rightarrow> error + 't" where
  "py_min [] = Inl ValueError"
| "py_min (x # xs) = Inr (fold min xs x)"

fun py_max :: "'t::linorder list \<Rightarrow> error + 't" where
  "py_max [] = Inl ValueError"
| "py_max (x # xs) = Inr (fold max xs x)"

text \<open>
  \<^verbatim>\<open>get_oldest_modified_time(path)\<close>: \<^verbatim>\<open>os.listdir\<close> raises on a path that is not a
  directory; the loop appends one time per entry (the recursive result for a directory,
  the ctime for a file) to \<^verbatim>\<open>time_list\<close>, and the function returns \<^verbatim>\<open>min(time_list)\<close>.
  \<open>oldest_time_list\<close> is the loop.
\<close>

fun get_oldest_modified_time :: "'t::linorder node \<Rightarrow> error + 't"
  and oldest_time_list :: "'t node list \<Rightarrow> error + 't list" where
  "get_oldest_modified_time (File t) = Inl NotADirectoryError"
| "get_oldest_modified_time (Directory fs) =
     (case oldest_time_list fs of Inl e \<Rightarrow> Inl e | Inr time_list \<Rightarrow> py_min time_list)"
| "oldest_time_list [] = Inr []"
| "oldest_time_list (File t # fs) =
     (case oldest_time_list fs of Inl e \<Rightarrow> Inl e | Inr ts \<Rightarrow> Inr (t # ts))"
| "oldest_time_list (Directory ds # fs) =
     (case get_oldest_modified_time (Directory ds) of
        Inl e \<Rightarrow> Inl e
      | Inr t \<Rightarrow> (case oldest_time_list fs of Inl e \<Rightarrow> Inl e | Inr ts \<Rightarrow> Inr (t # ts)))"

fun get_newest_modified_time :: "'t::linorder node \<Rightarrow> error + 't"
  and newest_time_list :: "'t node list \<Rightarrow> error + 't list" where
  "get_newest_modified_time (File t) = Inl NotADirectoryError"
| "get_newest_modified_time (Directory fs) =
     (case newest_time_list fs of Inl e \<Rightarrow> Inl e | Inr time_list \<Rightarrow> py_max time_list)"
| "newest_time_list [] = Inr []"
| "newest_time_list (File t # fs) =
     (case newest_time_list fs of Inl e \<Rightarrow> Inl e | Inr ts \<Rightarrow> Inr (t # ts))"
| "newest_time_list (Directory ds # fs) =
     (case get_newest_modified_time (Directory ds) of
        Inl e \<Rightarrow> Inl e
      | Inr t \<Rightarrow> (case newest_time_list fs of Inl e \<Rightarrow> Inl e | Inr ts \<Rightarrow> Inr (t # ts)))"

text \<open>
  The part of the file system that the first lines of \<^verbatim>\<open>create_calculator_page\<close> read:
  \<^verbatim>\<open>output/<calculator>\<close> (\<open>None\<close> when \<^verbatim>\<open>os.path.exists\<close> is false),
  \<^verbatim>\<open>resource_lists/<calculator>\<close>, \<^verbatim>\<open>core\<close>, and the ctime of \<^verbatim>\<open>build.py\<close>.
\<close>

record 't build_tree =
  calculator_folder :: "'t node option"
  source_folder :: "'t node"
  core :: "'t node"
  build_script :: 't

datatype decision = Skip | Build

text \<open>
  The head of \<^verbatim>\<open>create_calculator_page\<close>, up to the early \<^verbatim>\<open>return\<close>: \<open>Skip\<close> is the
  early return ("Nothing has changed since the last build"), \<open>Build\<close> is falling through
  to the packing and rendering.
\<close>

definition create_calculator_page_decision :: "'t::linorder build_tree \<Rightarrow> error + decision" where
  "create_calculator_page_decision fs =
     (case calculator_folder fs of
        None \<Rightarrow> Inr Build
      | Some out \<Rightarrow>
          (case get_oldest_modified_time out of
             Inl e \<Rightarrow> Inl e
           | Inr oldest_output \<Rightarrow>
          (case get_newest_modified_time (source_folder fs) of
             Inl e \<Rightarrow> Inl e
           | Inr newest_resource \<Rightarrow>
          (case get_newest_modified_time (core fs) of
             Inl e \<Rightarrow> Inl e
           | Inr newest_corelib \<Rightarrow>
               (let newest_build_script = build_script fs in
                if oldest_output > max newest_resource (max newest_corelib newest_build_script)
                then Inr Skip else Inr Build)))))"

text \<open>The ctimes of all plain files below a node, and whether some directory in it is empty.\<close>

fun file_times :: "'t node \<Rightarrow> 't set" where
  "file_times (File t) = {t}"
| "file_times (Directory fs) = (\<Union>f \<in> set fs. file_times f)"

fun has_empty_directory :: "'t node \<Rightarrow> bool" where
  "has_empty_directory (File t) = False"
| "has_empty_directory (Directory fs) = (fs = [] \<or> list_ex has_empty_directory fs)"

section \<open>Sprite packer\<close>

text \<open>
  Python strings are modelled as \<open>string\<close>, one \<open>char\<close> per character, ordered by
  character code and lexicographically, as Python orders \<^verbatim>\<open>str\<close>. Characters beyond
  \<open>char\<close>'s 8 bits are outside the model.

  Everything the modelled functions print is a \<open>message\<close>, one constructor per
  \<^verbatim>\<open>print\<close> statement (the two-line size error is one message), carrying the values
  the statement formats. A function that prints returns an \<open>'a run\<close>: the messages
  printed, in order, and then the exception that ended it or its result.
\<close>

datatype message =
    SizeMismatch string string
  | MissingKey string string string nat
  | UnknownKey string string string nat
  | KeyOrder string string string nat
  | InvalidRawResource string string
  | MissingRawResource string string
  | OnlyOneRawResource string string
  | UnknownRequirement string string
  | PositiveRequirement string string
  | MissingIcon string

type_synonym 'a run = "message list \<times> (error + 'a)"

definition bind_run :: "'a run \<Rightarrow> ('a \<Rightarrow> 'b run) \<Rightarrow> 'b run" where
  "bind_run r f =
     (case r of
        (ms, Inl e) \<Rightarrow> (ms, Inl e)
      | (ms, Inr x) \<Rightarrow> (case f x of (ms', y) \<Rightarrow> (ms @ ms', y)))"

text \<open>
  \<^verbatim>\<open>os.path.splitext\<close> on a name that \<^verbatim>\<open>os.listdir\<close> returned (so without a path
  separator): the split is at the last dot, unless only dots stand before it, in which
  case the extension is empty. \<open>rfind\<close> is \<^verbatim>\<open>str.rfind\<close> of one character.
\<close>

fun rfind :: "char \<Rightarrow> string \<Rightarrow> nat option" where
  "rfind c [] = None"
| "rfind c (x # xs) =
     (case rfind c xs of
        Some i \<Rightarrow> Some (Suc i)
      | None \<Rightarrow> if x = c then Some 0 else None)"

definition splitext :: "string \<Rightarrow> string \<times> string" where
  "splitext p =
     (case rfind (CHR ''.'') p of
        None \<Rightarrow> (p, [])
      | Some dotIndex \<Rightarrow>
          if list_ex (\<lambda>c. c \<noteq> CHR ''.'') (take dotIndex p)
          then (take dotIndex p, drop dotIndex p)
          else (p, []))"

text \<open>
  An opened image is modelled by its \<^verbatim>\<open>size\<close>, (width, height), the only thing the
  packer reads of it; PIL sizes are natural numbers.

  The first loop of \<^verbatim>\<open>create_packed_image\<close>. \<^verbatim>\<open>standard_width\<close>, \<^verbatim>\<open>standard_height\<close>
  and \<^verbatim>\<open>standard_image_reference\<close> start as \<^verbatim>\<open>None\<close> and are assigned together, once,
  at the first file: they are one optional triple here.
\<close>

type_synonym image = "nat \<times> nat"

record scan =
  standard :: "(nat \<times> nat \<times> string) option"
  images :: "(string \<times> image) list"
  printed :: "message list"

definition scan_file :: "string \<times> image \<Rightarrow> scan \<Rightarrow> scan" where
  "scan_file entry s =
     (case entry of (file, (width, height)) \<Rightarrow>
        (let s = s\<lparr>images := images s @ [(fst (splitext file), (width, height))]\<rparr> in
         case standard s of
           None \<Rightarrow> s\<lparr>standard := Some (width, height, file)\<rparr>
         | Some (standard_width, standard_height, standard_image_reference) \<Rightarrow>
             if standard_width \<noteq> width \<or> standard_height \<noteq> height
             then s\<lparr>printed := printed s @ [SizeMismatch file standard_image_reference]\<rparr>
             else s))"

text \<open>
  \<^verbatim>\<open>math.ceil(math.sqrt(a / w))\<close> for natural numbers \<open>a\<close> and \<open>w > 0\<close>, computed
  exactly: the least \<open>c\<close> with \<open>a \<le> w * c\<^sup>2\<close> (\<open>ceil_sqrt_ratio_real\<close> below proves it is
  the ceiling of the real square root). Python computes it in double precision; the two
  agree as long as the rounding of the quotient and of the root does not cross an
  integer, which holds for every image count and size a directory of icons can have.
  \<open>ceil_div\<close> is \<^verbatim>\<open>math.ceil(n / c)\<close> for \<open>c > 0\<close>, and \<^verbatim>\<open>math.floor(i / c)\<close> is \<open>i div c\<close>,
  under the same proviso.
\<close>

function ceil_sqrt_from :: "nat \<Rightarrow> nat \<Rightarrow> nat \<Rightarrow> nat" where
  "ceil_sqrt_from c a w = (if w = 0 \<or> a \<le> w * c * c then c else ceil_sqrt_from (Suc c) a w)"
  by pat_completeness auto
termination
proof (relation "measure (\<lambda>(c, a, w). a - w * c * c)")
  show "wf (measure (\<lambda>(c, a, w). a - w * c * c))" by simp
next
  fix c a w :: nat
  assume "\<not> (w = 0 \<or> a \<le> w * c * c)"
  then have "0 < w" "w * c * c < a" by simp_all
  moreover have "w * c * c + w \<le> w * Suc c * Suc c" by (simp add: algebra_simps)
  then have "w * c * c < w * Suc c * Suc c" using \<open>0 < w\<close> by linarith
  ultimately show "((Suc c, a, w), (c, a, w)) \<in> measure (\<lambda>(c, a, w). a - w * c * c)"
    by simp
qed

declare ceil_sqrt_from.simps [simp del]

definition ceil_sqrt_ratio :: "nat \<Rightarrow> nat \<Rightarrow> nat" where
  "ceil_sqrt_ratio a w = ceil_sqrt_from 0 a w"

definition ceil_div :: "nat \<Rightarrow> nat \<Rightarrow> nat" where
  "ceil_div n c = (n + c - 1) div c"

text \<open>
  What a run of the packer leaves behind: the tuple it returns (\<open>image_width\<close>,
  \<open>image_height\<close>, \<open>image_coordinates\<close>, named as the caller names them), the size
  (\<^verbatim>\<open>result_width\<close>, \<^verbatim>\<open>result_height\<close>) of the sheet it created with \<^verbatim>\<open>Image.new\<close>, and the \<^verbatim>\<open>paste\<close> calls in order, each with
  the name of the image pasted and its box.
\<close>

record packing =
  image_width :: nat
  image_height :: nat
  image_coordinates :: "string \<rightharpoonup> nat \<times> nat"
  sheet_width :: nat
  sheet_height :: nat
  pastes :: "(string \<times> nat \<times> nat) list"

text \<open>The second loop: one step per (index, (name, image)) of \<^verbatim>\<open>enumerate(images)\<close>.\<close>

definition paste_image ::
  "nat \<Rightarrow> nat \<Rightarrow> nat \<Rightarrow> nat \<times> string \<times> image \<Rightarrow>
   (string \<rightharpoonup> nat \<times> nat) \<times> (string \<times> nat \<times> nat) list \<Rightarrow>
   (string \<rightharpoonup> nat \<times> nat) \<times> (string \<times> nat \<times> nat) list" where
  "paste_image columns standard_width standard_height entry acc =
     (case entry of (index, (name, im)) \<Rightarrow>
        (let x_coordinate = (index mod columns) * standard_height;
             y_coordinate = (index div columns) * standard_width
         in (case acc of (coordinates, pasted) \<Rightarrow>
               (coordinates(name \<mapsto> (x_coordinate, y_coordinate)),
                pasted @ [(name, x_coordinate, y_coordinate)]))))"

text \<open>
  \<^verbatim>\<open>create_packed_image\<close>, given what \<^verbatim>\<open>os.listdir\<close> and \<^verbatim>\<open>Image.open\<close> return for
  the calculator's \<^verbatim>\<open>items\<close> folder: the file names in listing order, each with the
  size of its image. With no file the standard size is still \<^verbatim>\<open>None\<close> at the column
  count, and \<^verbatim>\<open>None * 0\<close> raises \<^verbatim>\<open>TypeError\<close>; a zero width, or a zero column count at
  the row count, raises \<^verbatim>\<open>ZeroDivisionError\<close>. Writing the file and the call of
  \<^verbatim>\<open>pngquant\<close> are not modelled.
\<close>

definition create_packed_image :: "(string \<times> image) list \<Rightarrow> packing run" where
  "create_packed_image listing =
     (let s = fold scan_file listing \<lparr>standard = None, images = [], printed = []\<rparr>;
          sorted_images = sort_key fst (images s)
      in case standard s of
           None \<Rightarrow> (printed s, Inl TypeError)
         | Some (standard_width, standard_height, standard_image_reference) \<Rightarrow>
             if standard_width = 0 then (printed s, Inl ZeroDivisionError)
             else
               (let columns = ceil_sqrt_ratio (standard_height * length sorted_images) standard_width
                in if columns = 0 then (printed s, Inl ZeroDivisionError)
                   else
                     (let result_width = standard_width * columns;
                          result_height = standard_height * ceil_div (length sorted_images) columns;
                          placed = fold (paste_image columns standard_width standard_height)
                                     (enumerate 0 sorted_images) (Map.empty, [])
                      in (printed s,
                          Inr \<lparr>image_width = standard_width, image_height = standard_height,
                               image_coordinates = fst placed,
                               sheet_width = result_width, sheet_height = result_height,
                               pastes = snd placed\<rparr>))))"

text \<open>
  The join of items to icons in \<^verbatim>\<open>create_calculator_page\<close>. \<open>simple_name\<close> is
  \<^verbatim>\<open>re.sub(r'[^a-z]', '', recipe.lower())\<close>: no character of the model outside
  \<^verbatim>\<open>A\<close> to \<^verbatim>\<open>Z\<close> lowercases to one of \<^verbatim>\<open>a\<close> to \<^verbatim>\<open>z\<close>, so \<open>lower\<close> need only map those.
  An item whose simple name is a key of the coordinate map gets a background position,
  any other the purple background and a warning.
\<close>

definition lower_char :: "char \<Rightarrow> char" where
  "lower_char c =
     (if CHR ''A'' \<le> c \<and> c \<le> CHR ''Z'' then char_of (of_char c + (32::nat)) else c)"

definition lower :: "string \<Rightarrow> string" where
  "lower s = map lower_char s"

definition simple_name :: "string \<Rightarrow> string" where
  "simple_name recipe = filter (\<lambda>c. CHR ''a'' \<le> c \<and> c \<le> CHR ''z'') (lower recipe)"

datatype style = BackgroundPosition int int | Purple

definition style_item ::
  "(string \<rightharpoonup> nat \<times> nat) \<Rightarrow> string \<Rightarrow>
   (string \<rightharpoonup> style) \<times> message list \<Rightarrow> (string \<rightharpoonup> style) \<times> message list" where
  "style_item resource_image_coordinates recipe acc =
     (case acc of (styles, warnings) \<Rightarrow>
        (case resource_image_coordinates (simple_name recipe) of
           Some (x_coordinate, y_coordinate) \<Rightarrow>
             (styles(simple_name recipe \<mapsto>
                BackgroundPosition (- int x_coordinate) (- int y_coordinate)), warnings)
         | None \<Rightarrow>
             (styles(simple_name recipe \<mapsto> Purple),
              warnings @ [MissingIcon (simple_name recipe)])))"

definition item_styles ::
  "(string \<rightharpoonup> nat \<times> nat) \<Rightarrow> string list \<Rightarrow> (string \<rightharpoonup> style) \<times> message list" where
  "item_styles resource_image_coordinates recipes =
     fold (style_item resource_image_coordinates) recipes (Map.empty, [])"

subsection \<open>Notions used to state the packer's results\<close>

text \<open>
  These are not code of the program. \<open>stem\<close> is the name under which a listed file is
  kept; \<open>layout\<close> is the list of placements of a list of names, image \<open>i\<close> of the list
  (counted from \<open>k\<close>) at \<open>((i mod columns) * h, (i div columns) * w)\<close>; \<open>pack_outcome\<close>
  is the packing of a sorted list of names with standard size \<open>(w, h)\<close>. The theorems
  below prove that \<open>create_packed_image\<close> computes them.
\<close>

definition stem :: "string \<times> image \<Rightarrow> string" where
  "stem entry = fst (splitext (fst entry))"

definition layout ::
  "nat \<Rightarrow> nat \<Rightarrow> nat \<Rightarrow> nat \<Rightarrow> string list \<Rightarrow> (string \<times> nat \<times> nat) list" where
  "layout columns w h k names =
     map (\<lambda>(i, name). (name, (i mod columns) * h, (i div columns) * w)) (enumerate k names)"

definition pack_outcome :: "nat \<Rightarrow> nat \<Rightarrow> string list \<Rightarrow> error + packing" where
  "pack_outcome w h names =
     (if w = 0 then Inl ZeroDivisionError
      else if ceil_sqrt_ratio (h * length names) w = 0 then Inl ZeroDivisionError
      else Inr \<lparr>image_width = w, image_height = h,
                image_coordinates =
                  map_of (rev (layout (ceil_sqrt_ratio (h * length names) w) w h 0 names)),
                sheet_width = w * ceil_sqrt_ratio (h * length names) w,
                sheet_height =
                  h * ceil_div (length names) (ceil_sqrt_ratio (h * length names) w),
                pastes = layout (ceil_sqrt_ratio (h * length names) w) w h 0 names\<rparr>)"

section \<open>Recipe validator\<close>

text \<open>
  What \<^verbatim>\<open>ordered_load\<close> returns for the recipes: every YAML mapping is an
  \<^verbatim>\<open>OrderedDict\<close>, modelled as the list of its (key, value) pairs in order, with string
  keys, no key twice. The values that occur are integers, strings and mappings. Two
  \<^verbatim>\<open>OrderedDict\<close>s are equal in Python when they hold equal pairs in the same order, which
  on these lists is equality. A recipe is a mapping; the resources are a mapping from the
  item name to the list of the item's recipes.
\<close>

datatype yaml = YInt int | YStr string | YMap "(string \<times> yaml) list"

type_synonym recipe = "(string \<times> yaml) list"

type_synonym resources = "(string \<times> recipe list) list"

definition required_keys :: "string list" where
  "required_keys = [''output'', ''recipe_type'', ''requirements'']"

definition optional_keys :: "string list" where
  "optional_keys = [''extra_data'']"

definition valid_keys :: "string list" where
  "valid_keys = required_keys @ optional_keys"

text \<open>
  A \<^verbatim>\<open>for\<close> loop whose body prints and may raise, over a loop state: the messages of
  the steps in order, up to the first exception.
\<close>

fun fold_run :: "('a \<Rightarrow> 's \<Rightarrow> 's run) \<Rightarrow> 'a list \<Rightarrow> 's \<Rightarrow> 's run" where
  "fold_run f [] s = ([], Inr s)"
| "fold_run f (x # xs) s = bind_run (f x s) (fold_run f xs)"

text \<open>
  The first loop of \<^verbatim>\<open>lint_recipe\<close>, for the recipe at index \<open>i\<close>. The messages carry
  the calculator name as given (the printed line starts with it in upper case), the key,
  the item name and the index. \<open>key_order\<close> is one of the three order checks:
  \<^verbatim>\<open>recipe_keys[j]\<close> raises \<^verbatim>\<open>IndexError\<close> when the recipe has no more than \<open>j\<close> keys.
\<close>

definition key_order :: "string \<Rightarrow> string \<Rightarrow> nat \<Rightarrow> string list \<Rightarrow> nat \<Rightarrow> unit run" where
  "key_order calculator_name item_name i recipe_keys j =
     (if j < length recipe_keys
      then (if recipe_keys ! j \<noteq> valid_keys ! j
            then [KeyOrder calculator_name (valid_keys ! j) item_name i] else [], Inr ())
      else ([], Inl IndexError))"

definition lint_keys :: "string \<Rightarrow> string \<Rightarrow> nat \<Rightarrow> recipe \<Rightarrow> unit run" where
  "lint_keys calculator_name item_name i recipe =
     (let recipe_keys = map fst recipe in
      bind_run
        (map (\<lambda>required_key. MissingKey calculator_name required_key item_name i)
           (filter (\<lambda>required_key. required_key \<notin> set recipe_keys) required_keys), Inr ())
        (\<lambda>_. bind_run
        (map (\<lambda>recipe_key. UnknownKey calculator_name recipe_key item_name i)
           (filter (\<lambda>recipe_key. recipe_key \<notin> set valid_keys) recipe_keys), Inr ())
        (\<lambda>_. bind_run (key_order calculator_name item_name i recipe_keys 0)
        (\<lambda>_. bind_run (key_order calculator_name item_name i recipe_keys 1)
        (\<lambda>_. key_order calculator_name item_name i recipe_keys 2)))))"

text \<open>
  The second loop of \<^verbatim>\<open>lint_recipe\<close>, with \<^verbatim>\<open>raw_resource_count\<close> as the loop state:
  \<^verbatim>\<open>recipe['recipe_type']\<close> raises \<^verbatim>\<open>KeyError\<close> when the key is missing.
  \<open>raw_resource\<close> is the \<^verbatim>\<open>OrderedDict\<close> the recipe is compared with.
\<close>

definition raw_resource :: "string \<Rightarrow> recipe" where
  "raw_resource item_name =
     [(''output'', YInt 1), (''recipe_type'', YStr ''Raw Resource''),
      (''requirements'', YMap [(item_name, YInt 0)])]"

definition count_raw_resource :: "string \<Rightarrow> string \<Rightarrow> recipe \<Rightarrow> nat \<Rightarrow> nat run" where
  "count_raw_resource calculator_name item_name recipe raw_resource_count =
     (case map_of recipe ''recipe_type'' of
        None \<Rightarrow> ([], Inl KeyError)
      | Some recipe_type \<Rightarrow>
          if recipe_type = YStr ''Raw Resource''
          then (if recipe = raw_resource item_name
                then ([], Inr (raw_resource_count + 1))
                else ([InvalidRawResource calculator_name item_name], Inr raw_resource_count))
          else ([], Inr raw_resource_count))"

definition lint_recipe :: "string \<Rightarrow> string \<Rightarrow> recipe list \<Rightarrow> unit run" where
  "lint_recipe calculator_name item_name recipes =
     bind_run
       (fold_run (\<lambda>(i, recipe) _. lint_keys calculator_name item_name i recipe)
          (enumerate 0 recipes) ())
       (\<lambda>_. bind_run (fold_run (count_raw_resource calculator_name item_name) recipes 0)
       (\<lambda>raw_resource_count.
          if raw_resource_count = 0
          then ([MissingRawResource calculator_name item_name], Inr ())
          else if raw_resource_count > 1
          then ([OnlyOneRawResource calculator_name item_name], Inr ())
          else ([], Inr ())))"

text \<open>
  \<^verbatim>\<open>ensure_valid_requirements\<close>. What Python does with the value of
  \<^verbatim>\<open>recipe["requirements"]\<close>: iterating a mapping gives its keys, iterating a string its
  characters, iterating an integer raises \<^verbatim>\<open>TypeError\<close>; indexing a mapping with a
  missing key raises \<^verbatim>\<open>KeyError\<close>, indexing a string or an integer with a string raises
  \<^verbatim>\<open>TypeError\<close>; and only an integer can be compared with \<^verbatim>\<open>0\<close>.
\<close>

fun py_iter :: "yaml \<Rightarrow> error + string list" where
  "py_iter (YMap kvs) = Inr (map fst kvs)"
| "py_iter (YStr s) = Inr (map (\<lambda>c. [c]) s)"
| "py_iter (YInt n) = Inl TypeError"

fun py_getitem :: "yaml \<Rightarrow> string \<Rightarrow> error + yaml" where
  "py_getitem (YMap kvs) k = (case map_of kvs k of None \<Rightarrow> Inl KeyError | Some v \<Rightarrow> Inr v)"
| "py_getitem (YStr s) k = Inl TypeError"
| "py_getitem (YInt n) k = Inl TypeError"

fun py_positive :: "yaml \<Rightarrow> error + bool" where
  "py_positive (YInt n) = Inr (n > 0)"
| "py_positive (YStr s) = Inl TypeError"
| "py_positive (YMap kvs) = Inl TypeError"

definition check_requirement ::
  "resources \<Rightarrow> string \<Rightarrow> recipe \<Rightarrow> string \<Rightarrow> unit \<Rightarrow> unit run" where
  "check_requirement resources resource recipe requirement u =
     (if requirement \<notin> set (map fst resources)
      then ([UnknownRequirement resource requirement], Inr ())
      else (case map_of recipe ''requirements'' of
              None \<Rightarrow> ([], Inl KeyError)
            | Some requirements \<Rightarrow>
                (case py_getitem requirements requirement of
                   Inl e \<Rightarrow> ([], Inl e)
                 | Inr quantity \<Rightarrow>
                     (case py_positive quantity of
                        Inl e \<Rightarrow> ([], Inl e)
                      | Inr positive \<Rightarrow>
                          (if positive then [PositiveRequirement resource requirement] else [],
                           Inr ())))))"

definition check_requirements :: "resources \<Rightarrow> string \<Rightarrow> recipe \<Rightarrow> unit \<Rightarrow> unit run" where
  "check_requirements resources resource recipe u =
     (case map_of recipe ''requirements'' of
        None \<Rightarrow> ([], Inl KeyError)
      | Some requirements \<Rightarrow>
          (case py_iter requirements of
             Inl e \<Rightarrow> ([], Inl e)
           | Inr names \<Rightarrow> fold_run (check_requirement resources resource recipe) names ()))"

definition ensure_valid_requirements :: "resources \<Rightarrow> unit run" where
  "ensure_valid_requirements resources =
     fold_run (\<lambda>(resource, recipes) u. fold_run (check_requirements resources resource) recipes ())
       resources ()"

text \<open>
  The sanity checks of \<^verbatim>\<open>create_calculator_page\<close>: \<^verbatim>\<open>lint_recipe\<close> for every item, in
  order, then \<^verbatim>\<open>ensure_valid_requirements\<close>.
\<close>

definition sanity_checks :: "string \<Rightarrow> resources \<Rightarrow> unit run" where
  "sanity_checks calculator_name recipes =
     bind_run
       (fold_run (\<lambda>(recipe, item_recipes) u. lint_recipe calculator_name recipe item_recipes)
          recipes ())
       (\<lambda>_. ensure_valid_requirements recipes)"

subsection \<open>Notions used to state the validator's results\<close>

text \<open>
  These are not code of the program. \<open>requirement_issue\<close> is the issue that the
  specification gives a requirement entry (target, quantity) of an item, given the known
  item names. \<open>requirement_entries\<close> reads the entries of a recipe whose
  \<^verbatim>\<open>requirements\<close> is a mapping to integers; \<open>well_formed\<close> holds of a recipe that has
  at least three keys, a \<^verbatim>\<open>recipe_type\<close>, and such requirements.
\<close>

definition requirement_issue :: "string set \<Rightarrow> string \<Rightarrow> string \<times> int \<Rightarrow> message list" where
  "requirement_issue known item entry =
     (case entry of (target, quantity) \<Rightarrow>
        if target \<notin> known then [UnknownRequirement item target]
        else if quantity > 0 then [PositiveRequirement item target]
        else [])"

fun the_int :: "yaml \<Rightarrow> int option" where
  "the_int (YInt n) = Some n"
| "the_int (YStr s) = None"
| "the_int (YMap kvs) = None"

definition requirement_entries :: "recipe \<Rightarrow> (string \<times> int) list option" where
  "requirement_entries recipe =
     (case map_of recipe ''requirements'' of
        Some (YMap kvs) \<Rightarrow>
          if distinct (map fst kvs) \<and> list_all (\<lambda>kv. the_int (snd kv) \<noteq> None) kvs
          then Some (map (\<lambda>kv. (fst kv, the (the_int (snd kv)))) kvs)
          else None
      | _ \<Rightarrow> None)"

definition well_formed :: "recipe \<Rightarrow> bool" where
  "well_formed recipe \<longleftrightarrow>
     3 \<le> length recipe \<and> map_of recipe ''recipe_type'' \<noteq> None \<and>
     requirement_entries recipe \<noteq> None"

section \<open>Staleness check: proofs\<close>

lemma py_min_Inr:
  assumes "py_min ts = Inr v"
  shows "v \<in> set ts \<and> (\<forall>u \<in> set ts. v \<le> u)"
proof (cases ts)
  case Nil
  with assms show ?thesis by simp
next
  case (Cons x xs)
  with assms have "v = Min (set (x # xs))" using Min.set_eq_fold[of x xs] by simp
  with Cons show ?thesis by (metis List.finite_set Min_in Min_le list.distinct(1) set_empty)
qed

lemma py_max_Inr:
  assumes "py_max ts = Inr v"
  shows "v \<in> set ts \<and> (\<forall>u \<in> set ts. u \<le> v)"
proof (cases ts)
  case Nil
  with assms show ?thesis by simp
next
  case (Cons x xs)
  with assms have "v = Max (set (x # xs))" using Max.set_eq_fold[of x xs] by simp
  with Cons show ?thesis by (metis List.finite_set Max_in Max_ge list.distinct(1) set_empty)
qed

lemma py_min_total: "ts \<noteq> [] \<Longrightarrow> \<exists>v. py_min ts = Inr v"
  by (cases ts) auto

lemma py_max_total: "ts \<noteq> [] \<Longrightarrow> \<exists>v. py_max ts = Inr v"
  by (cases ts) auto

lemma finite_file_times: "finite (file_times n)"
  by (induction n) auto

lemma oldest_sound:
  "(get_oldest_modified_time (n :: 't::linorder node) = Inr v \<longrightarrow> v \<in> file_times n \<and> (\<forall>t \<in> file_times n. v \<le> t))"
  "(oldest_time_list (fs :: 't node list) = Inr ts \<longrightarrow>
      length ts = length fs \<and>
      set ts \<subseteq> (\<Union>f \<in> set fs. file_times f) \<and>
      (\<forall>f \<in> set fs. \<forall>t \<in> file_times f. \<exists>u \<in> set ts. u \<le> t))"
proof (induction n and fs arbitrary: v and ts rule: get_oldest_modified_time_oldest_time_list.induct)
  case (1 t)
  then show ?case by simp
next
  case (2 fs)
  show ?case
  proof
    assume a: "get_oldest_modified_time (Directory fs) = Inr v"
    then obtain ts where ts: "oldest_time_list fs = Inr ts" "py_min ts = Inr v"
      by (auto split: sum.splits)
    from 2 ts(1) have sub: "set ts \<subseteq> (\<Union>f \<in> set fs. file_times f)"
      and low: "\<forall>f \<in> set fs. \<forall>t \<in> file_times f. \<exists>u \<in> set ts. u \<le> t" by blast+
    from py_min_Inr[OF ts(2)] have v: "v \<in> set ts" "\<forall>u \<in> set ts. v \<le> u" by blast+
    show "v \<in> file_times (Directory fs) \<and> (\<forall>t \<in> file_times (Directory fs). v \<le> t)"
    proof
      show "v \<in> file_times (Directory fs)" using v(1) sub by auto
      show "\<forall>t \<in> file_times (Directory fs). v \<le> t"
      proof
        fix t assume "t \<in> file_times (Directory fs)"
        then obtain f where "f \<in> set fs" "t \<in> file_times f" by auto
        with low obtain u where "u \<in> set ts" "u \<le> t" by blast
        with v(2) show "v \<le> t" by force
      qed
    qed
  qed
next
  case 3
  then show ?case by simp
next
  case (4 t fs)
  then show ?case by (fastforce split: sum.splits)
next
  case (5 ds fs)
  show ?case
  proof
    assume a: "oldest_time_list (Directory ds # fs) = Inr ts"
    then obtain t ts' where t: "get_oldest_modified_time (Directory ds) = Inr t"
      and ts': "oldest_time_list fs = Inr ts'" and eq: "ts = t # ts'"
      by (auto split: sum.splits)
    from 5(1) t have t1: "t \<in> file_times (Directory ds)" "\<forall>u \<in> file_times (Directory ds). t \<le> u"
      by blast+
    from 5(2)[OF t] ts' have r: "length ts' = length fs" "set ts' \<subseteq> (\<Union>f \<in> set fs. file_times f)"
      "\<forall>f \<in> set fs. \<forall>t \<in> file_times f. \<exists>u \<in> set ts'. u \<le> t" by blast+
    show "length ts = length (Directory ds # fs) \<and>
      set ts \<subseteq> (\<Union>f \<in> set (Directory ds # fs). file_times f) \<and>
      (\<forall>f \<in> set (Directory ds # fs). \<forall>t \<in> file_times f. \<exists>u \<in> set ts. u \<le> t)"
      using t1 r eq by (auto simp del: file_times.simps)
  qed
qed

lemma newest_sound:
  "(get_newest_modified_time (n :: 't::linorder node) = Inr v \<longrightarrow> v \<in> file_times n \<and> (\<forall>t \<in> file_times n. t \<le> v))"
  "(newest_time_list (fs :: 't node list) = Inr ts \<longrightarrow>
      length ts = length fs \<and>
      set ts \<subseteq> (\<Union>f \<in> set fs. file_times f) \<and>
      (\<forall>f \<in> set fs. \<forall>t \<in> file_times f. \<exists>u \<in> set ts. t \<le> u))"
proof (induction n and fs arbitrary: v and ts rule: get_newest_modified_time_newest_time_list.induct)
  case (1 t)
  then show ?case by simp
next
  case (2 fs)
  show ?case
  proof
    assume a: "get_newest_modified_time (Directory fs) = Inr v"
    then obtain ts where ts: "newest_time_list fs = Inr ts" "py_max ts = Inr v"
      by (auto split: sum.splits)
    from 2 ts(1) have sub: "set ts \<subseteq> (\<Union>f \<in> set fs. file_times f)"
      and up: "\<forall>f \<in> set fs. \<forall>t \<in> file_times f. \<exists>u \<in> set ts. t \<le> u" by blast+
    from py_max_Inr[OF ts(2)] have v: "v \<in> set ts" "\<forall>u \<in> set ts. u \<le> v" by blast+
    show "v \<in> file_times (Directory fs) \<and> (\<forall>t \<in> file_times (Directory fs). t \<le> v)"
    proof
      show "v \<in> file_times (Directory fs)" using v(1) sub by auto
      show "\<forall>t \<in> file_times (Directory fs). t \<le> v"
      proof
        fix t assume "t \<in> file_times (Directory fs)"
        then obtain f where "f \<in> set fs" "t \<in> file_times f" by auto
        with up obtain u where "u \<in> set ts" "t \<le> u" by blast
        with v(2) show "t \<le> v" by force
      qed
    qed
  qed
next
  case 3
  then show ?case by simp
next
  case (4 t fs)
  then show ?case by (fastforce split: sum.splits)
next
  case (5 ds fs)
  show ?case
  proof
    assume a: "newest_time_list (Directory ds # fs) = Inr ts"
    then obtain t ts' where t: "get_newest_modified_time (Directory ds) = Inr t"
      and ts': "newest_time_list fs = Inr ts'" and eq: "ts = t # ts'"
      by (auto split: sum.splits)
    from 5(1) t have t1: "t \<in> file_times (Directory ds)" "\<forall>u \<in> file_times (Directory ds). u \<le> t"
      by blast+
    from 5(2)[OF t] ts' have r: "length ts' = length fs" "set ts' \<subseteq> (\<Union>f \<in> set fs. file_times f)"
      "\<forall>f \<in> set fs. \<forall>t \<in> file_times f. \<exists>u \<in> set ts'. t \<le> u" by blast+
    show "length ts = length (Directory ds # fs) \<and>
      set ts \<subseteq> (\<Union>f \<in> set (Directory ds # fs). file_times f) \<and>
      (\<forall>f \<in> set (Directory ds # fs). \<forall>t \<in> file_times f. \<exists>u \<in> set ts. t \<le> u)"
      using t1 r eq by (auto simp del: file_times.simps)
  qed
qed

lemma oldest_list_outcome:
  assumes "\<And>ds. Directory ds \<in> set fs \<Longrightarrow>
     (if has_empty_directory (Directory ds) then get_oldest_modified_time (Directory ds :: 't::linorder node) = Inl ValueError
      else \<exists>v. get_oldest_modified_time (Directory ds) = Inr v)"
  shows "(if list_ex has_empty_directory fs then oldest_time_list fs = Inl ValueError
    else \<exists>ts. oldest_time_list fs = Inr ts \<and> length ts = length fs)"
  using assms
proof (induction fs)
  case Nil
  then show ?case by simp
next
  case (Cons f fs)
  have IH: "(if list_ex has_empty_directory fs then oldest_time_list fs = Inl ValueError
    else \<exists>ts. oldest_time_list fs = Inr ts \<and> length ts = length fs)"
  proof (rule Cons.IH)
    fix ds assume "Directory ds \<in> set fs"
    then have "Directory ds \<in> set (f # fs)" by simp
    then show "if has_empty_directory (Directory ds) then get_oldest_modified_time (Directory ds) = Inl ValueError
      else \<exists>v. get_oldest_modified_time (Directory ds) = Inr v" by (rule Cons.prems)
  qed
  show ?case
  proof (cases f)
    case (File t)
    with IH show ?thesis by (auto split: if_splits)
  next
    case (Directory ds)
    with Cons.prems[of ds] have "(if has_empty_directory (Directory ds) then get_oldest_modified_time (Directory ds) = Inl ValueError
      else \<exists>v. get_oldest_modified_time (Directory ds) = Inr v)" by simp
    with IH Directory show ?thesis by (auto split: if_splits simp del: has_empty_directory.simps get_oldest_modified_time.simps)
  qed
qed

lemma oldest_directory_outcome:
  "(if has_empty_directory (Directory ds) then get_oldest_modified_time (Directory ds :: 't::linorder node) = Inl ValueError
    else \<exists>v. get_oldest_modified_time (Directory ds) = Inr v)"
proof (induction "Directory ds" arbitrary: ds rule: node.induct)
  case (Directory ds)
  then have "\<And>es. Directory es \<in> set ds \<Longrightarrow>
     (if has_empty_directory (Directory es) then get_oldest_modified_time (Directory es) = Inl ValueError
      else \<exists>v. get_oldest_modified_time (Directory es) = Inr v)" by blast
  from oldest_list_outcome[OF this] have L: "(if list_ex has_empty_directory ds then oldest_time_list ds = Inl ValueError
    else \<exists>ts. oldest_time_list ds = Inr ts \<and> length ts = length ds)" by simp
  show ?case
  proof (cases "ds = []")
    case True
    then show ?thesis by simp
  next
    case False
    show ?thesis
    proof (cases "list_ex has_empty_directory ds")
      case True
      with L show ?thesis by simp
    next
      case False
      with L obtain ts where ts: "oldest_time_list ds = Inr ts" "length ts = length ds" by auto
      with \<open>ds \<noteq> []\<close> have "ts \<noteq> []" by auto
      from py_min_total[OF this] ts False \<open>ds \<noteq> []\<close> show ?thesis by auto
    qed
  qed
qed

lemma newest_list_outcome:
  assumes "\<And>ds. Directory ds \<in> set fs \<Longrightarrow>
     (if has_empty_directory (Directory ds) then get_newest_modified_time (Directory ds :: 't::linorder node) = Inl ValueError
      else \<exists>v. get_newest_modified_time (Directory ds) = Inr v)"
  shows "(if list_ex has_empty_directory fs then newest_time_list fs = Inl ValueError
    else \<exists>ts. newest_time_list fs = Inr ts \<and> length ts = length fs)"
  using assms
proof (induction fs)
  case Nil
  then show ?case by simp
next
  case (Cons f fs)
  have IH: "(if list_ex has_empty_directory fs then newest_time_list fs = Inl ValueError
    else \<exists>ts. newest_time_list fs = Inr ts \<and> length ts = length fs)"
  proof (rule Cons.IH)
    fix ds assume "Directory ds \<in> set fs"
    then have "Directory ds \<in> set (f # fs)" by simp
    then show "if has_empty_directory (Directory ds) then get_newest_modified_time (Directory ds) = Inl ValueError
      else \<exists>v. get_newest_modified_time (Directory ds) = Inr v" by (rule Cons.prems)
  qed
  show ?case
  proof (cases f)
    case (File t)
    with IH show ?thesis by (auto split: if_splits)
  next
    case (Directory ds)
    with Cons.prems[of ds] have "(if has_empty_directory (Directory ds) then get_newest_modified_time (Directory ds) = Inl ValueError
      else \<exists>v. get_newest_modified_time (Directory ds) = Inr v)" by simp
    with IH Directory show ?thesis by (auto split: if_splits simp del: has_empty_directory.simps get_newest_modified_time.simps)
  qed
qed

lemma newest_directory_outcome:
  "(if has_empty_directory (Directory ds) then get_newest_modified_time (Directory ds :: 't::linorder node) = Inl ValueError
    else \<exists>v. get_newest_modified_time (Directory ds) = Inr v)"
proof (induction "Directory ds" arbitrary: ds rule: node.induct)
  case (Directory ds)
  then have "\<And>es. Directory es \<in> set ds \<Longrightarrow>
     (if has_empty_directory (Directory es) then get_newest_modified_time (Directory es) = Inl ValueError
      else \<exists>v. get_newest_modified_time (Directory es) = Inr v)" by blast
  from newest_list_outcome[OF this] have L: "(if list_ex has_empty_directory ds then newest_time_list ds = Inl ValueError
    else \<exists>ts. newest_time_list ds = Inr ts \<and> length ts = length ds)" by simp
  show ?case
  proof (cases "ds = []")
    case True
    then show ?thesis by simp
  next
    case False
    show ?thesis
    proof (cases "list_ex has_empty_directory ds")
      case True
      with L show ?thesis by simp
    next
      case False
      with L obtain ts where ts: "newest_time_list ds = Inr ts" "length ts = length ds" by auto
      with \<open>ds \<noteq> []\<close> have "ts \<noteq> []" by auto
      from py_max_total[OF this] ts False \<open>ds \<noteq> []\<close> show ?thesis by auto
    qed
  qed
qed

lemma oldest_is_Min:
  assumes "\<not> has_empty_directory (Directory ds)"
  shows "get_oldest_modified_time (Directory ds) = Inr (Min (file_times (Directory ds)))"
proof -
  from oldest_directory_outcome[of ds] assms
  obtain v where v: "get_oldest_modified_time (Directory ds) = Inr v" by auto
  with oldest_sound(1)[of "Directory ds" v]
  have "v \<in> file_times (Directory ds)" "\<forall>t \<in> file_times (Directory ds). v \<le> t" by blast+
  then have "Min (file_times (Directory ds)) = v"
    by (intro Min_eqI finite_file_times) auto
  with v show ?thesis by simp
qed

lemma newest_is_Max:
  assumes "\<not> has_empty_directory (Directory ds)"
  shows "get_newest_modified_time (Directory ds) = Inr (Max (file_times (Directory ds)))"
proof -
  from newest_directory_outcome[of ds] assms
  obtain v where v: "get_newest_modified_time (Directory ds) = Inr v" by auto
  with newest_sound(1)[of "Directory ds" v]
  have "v \<in> file_times (Directory ds)" "\<forall>t \<in> file_times (Directory ds). t \<le> v" by blast+
  then have "Max (file_times (Directory ds)) = v"
    by (intro Max_eqI finite_file_times) auto
  with v show ?thesis by simp
qed

text \<open>
  Claim C3. When the output folder does not exist the page is built. When it exists, and
  neither it nor the two input folders hold an empty directory, \<^verbatim>\<open>oldest_output\<close> is the
  least ctime of the files below the output folder, each \<^verbatim>\<open>newest\<close> value is the greatest
  ctime of the files below its input folder, and the page is built exactly when
  \<^verbatim>\<open>oldest_output\<close> is at most the maximum of the two newest values and the ctime of
  \<^verbatim>\<open>build.py\<close>; otherwise it is skipped.
\<close>

theorem staleness_decision:
  fixes fs :: "'t::linorder build_tree"
  shows "(calculator_folder fs = None \<longrightarrow> create_calculator_page_decision fs = Inr Build) \<and>
    (calculator_folder fs = Some (Directory out) \<and> source_folder fs = Directory src \<and>
     core fs = Directory lib \<and> \<not> has_empty_directory (Directory out) \<and>
     \<not> has_empty_directory (Directory src) \<and> \<not> has_empty_directory (Directory lib) \<longrightarrow>
       get_oldest_modified_time (Directory out) = Inr (Min (file_times (Directory out))) \<and>
       get_newest_modified_time (Directory src) = Inr (Max (file_times (Directory src))) \<and>
       get_newest_modified_time (Directory lib) = Inr (Max (file_times (Directory lib))) \<and>
       create_calculator_page_decision fs =
         Inr (if Min (file_times (Directory out))
                 \<le> Max {Max (file_times (Directory src)), Max (file_times (Directory lib)), build_script fs}
              then Build else Skip))"
proof (intro conjI impI)
  assume "calculator_folder fs = None"
  then show "create_calculator_page_decision fs = Inr Build"
    by (simp add: create_calculator_page_decision_def)
next
  assume a: "calculator_folder fs = Some (Directory out) \<and> source_folder fs = Directory src \<and>
     core fs = Directory lib \<and> \<not> has_empty_directory (Directory out) \<and>
     \<not> has_empty_directory (Directory src) \<and> \<not> has_empty_directory (Directory lib)"
  then show o: "get_oldest_modified_time (Directory out) = Inr (Min (file_times (Directory out)))"
    by (intro oldest_is_Min) blast
  from a show s: "get_newest_modified_time (Directory src) = Inr (Max (file_times (Directory src)))"
    by (intro newest_is_Max) blast
  from a show l: "get_newest_modified_time (Directory lib) = Inr (Max (file_times (Directory lib)))"
    by (intro newest_is_Max) blast
  have m: "Max {a, b, c} = max a (max b c)" for a b c :: 't by simp
  have d: "(if x > y then Inr Skip else Inr Build) = (Inr (if x \<le> y then Build else Skip) :: error + decision)"
    for x y :: 't by auto
  from a o s l have "create_calculator_page_decision fs =
      (if Min (file_times (Directory out))
          > max (Max (file_times (Directory src))) (max (Max (file_times (Directory lib))) (build_script fs))
       then Inr Skip else Inr Build)"
    unfolding create_calculator_page_decision_def
    by (simp del: get_oldest_modified_time.simps get_newest_modified_time.simps file_times.simps
        add: Let_def)
  then show "create_calculator_page_decision fs =
         Inr (if Min (file_times (Directory out))
                 \<le> Max {Max (file_times (Directory src)), Max (file_times (Directory lib)), build_script fs}
              then Build else Skip)"
    unfolding m d by simp
qed

theorem staleness_decision_witness:
  "create_calculator_page_decision
     \<lparr>calculator_folder = Some (Directory [File (5::int), Directory [File 7]]),
      source_folder = Directory [File 3, Directory [File 6, File 2]],
      core = Directory [File 1], build_script = 4\<rparr> = Inr Build \<and>
   create_calculator_page_decision
     \<lparr>calculator_folder = Some (Directory [File (8::int), Directory [File 7]]),
      source_folder = Directory [File 3, Directory [File 6, File 2]],
      core = Directory [File 1], build_script = 4\<rparr> = Inr Skip \<and>
   create_calculator_page_decision
     \<lparr>calculator_folder = None,
      source_folder = Directory [File (3::int)], core = Directory [File 1], build_script = 4\<rparr> = Inr Build"
  using staleness_decision[of "\<lparr>calculator_folder = Some (Directory [File (5::int), Directory [File 7]]),
      source_folder = Directory [File 3, Directory [File 6, File 2]],
      core = Directory [File 1], build_script = 4\<rparr>" "[File 5, Directory [File 7]]"
      "[File 3, Directory [File 6, File 2]]" "[File 1]"]
    staleness_decision[of "\<lparr>calculator_folder = Some (Directory [File (8::int), Directory [File 7]]),
      source_folder = Directory [File 3, Directory [File 6, File 2]],
      core = Directory [File 1], build_script = 4\<rparr>" "[File 8, Directory [File 7]]"
      "[File 3, Directory [File 6, File 2]]" "[File 1]"]
    staleness_decision[of "\<lparr>calculator_folder = None,
      source_folder = Directory [File (3::int)], core = Directory [File 1], build_script = 4\<rparr>"]
  by simp

text \<open>
  Claim C7. A tree that holds an empty directory anywhere makes both traversals raise
  \<^verbatim>\<open>ValueError\<close> (Python's \<^verbatim>\<open>min\<close> and \<^verbatim>\<open>max\<close> of an empty list), whatever else the
  tree holds. So with an empty directory in an input folder the decision is never
  \<open>Skip\<close>: when the output folder exists the run ends in an exception.
\<close>

theorem empty_directory_is_fatal:
  fixes n :: "'t::linorder node" and fs :: "'t build_tree"
  shows "(has_empty_directory n \<longrightarrow>
      get_oldest_modified_time n = Inl ValueError \<and> get_newest_modified_time n = Inl ValueError) \<and>
    ((has_empty_directory (source_folder fs) \<or> has_empty_directory (core fs)) \<longrightarrow>
      create_calculator_page_decision fs \<noteq> Inr Skip \<and>
      (calculator_folder fs \<noteq> None \<longrightarrow> (\<exists>e. create_calculator_page_decision fs = Inl e)))"
proof (intro conjI impI)
  assume h: "has_empty_directory n"
  then obtain ds where n: "n = Directory ds" by (cases n) auto
  from h n oldest_directory_outcome[of ds] show "get_oldest_modified_time n = Inl ValueError" by simp
  from h n newest_directory_outcome[of ds] show "get_newest_modified_time n = Inl ValueError" by simp
next
  assume h: "has_empty_directory (source_folder fs) \<or> has_empty_directory (core fs)"
  have e: "get_newest_modified_time m = Inl ValueError" if "has_empty_directory m" for m :: "'t node"
  proof -
    from that obtain ds where "m = Directory ds" by (cases m) auto
    with that newest_directory_outcome[of ds] show ?thesis by simp
  qed
  from h e have "get_newest_modified_time (source_folder fs) = Inl ValueError
     \<or> get_newest_modified_time (core fs) = Inl ValueError" by blast
  then have *: "calculator_folder fs \<noteq> None \<Longrightarrow> \<exists>e. create_calculator_page_decision fs = Inl e"
    unfolding create_calculator_page_decision_def
    by (auto split: option.splits sum.splits)
  then show "create_calculator_page_decision fs \<noteq> Inr Skip"
    by (cases "calculator_folder fs") (auto simp: create_calculator_page_decision_def)
  assume "calculator_folder fs \<noteq> None"
  with * show "\<exists>e. create_calculator_page_decision fs = Inl e" by blast
qed

theorem empty_directory_is_fatal_witness:
  "get_oldest_modified_time (Directory [File (3::int), Directory [File 2, Directory []]]) = Inl ValueError \<and>
   get_newest_modified_time (Directory [File (3::int), Directory [File 2, Directory []]]) = Inl ValueError \<and>
   create_calculator_page_decision
     \<lparr>calculator_folder = Some (Directory [File (9::int)]),
      source_folder = Directory [File 3, Directory []], core = Directory [File 1], build_script = 4\<rparr>
     \<noteq> Inr Skip \<and>
   (\<exists>e. create_calculator_page_decision
     \<lparr>calculator_folder = Some (Directory [File (9::int)]),
      source_folder = Directory [File 3, Directory []], core = Directory [File 1], build_script = 4\<rparr>
     = Inl e)"
  using empty_directory_is_fatal[of "Directory [File (3::int), Directory [File 2, Directory []]]"
     "\<lparr>calculator_folder = Some (Directory [File (9::int)]),
      source_folder = Directory [File 3, Directory []], core = Directory [File 1], build_script = 4\<rparr>"]
  by simp

section \<open>Sprite packer: proofs\<close>

lemma images_scan:
  "images (fold scan_file listing s) = images s @ map (\<lambda>e. (stem e, snd e)) listing"
  by (induction listing arbitrary: s)
     (auto simp: scan_file_def stem_def Let_def split: option.splits prod.splits)

lemma standard_scan_Some:
  "standard s = Some x \<Longrightarrow> standard (fold scan_file listing s) = Some x"
  by (induction listing arbitrary: s)
     (auto simp: scan_file_def Let_def split: option.splits prod.splits)

lemma standard_scan_None:
  assumes n: "standard s = None"
  shows "standard (fold scan_file listing s) =
     (case listing of [] \<Rightarrow> None | (file, (width, height)) # rest \<Rightarrow> Some (width, height, file))"
proof (cases listing)
  case Nil
  with n show ?thesis by simp
next
  case (Cons e rest)
  obtain name width height where e: "e = (name, (width, height))" by (cases e) auto
  from n have "standard (scan_file e s) = Some (width, height, name)"
    by (simp add: scan_file_def e Let_def)
  from standard_scan_Some[OF this] Cons e show ?thesis by simp
qed

lemma ceil_sqrt_from_spec:
  "0 < w \<Longrightarrow> c \<le> ceil_sqrt_from c a w \<and> a \<le> w * ceil_sqrt_from c a w * ceil_sqrt_from c a w \<and>
     (\<forall>d. c \<le> d \<and> d < ceil_sqrt_from c a w \<longrightarrow> w * d * d < a)"
proof (induction c a w rule: ceil_sqrt_from.induct)
  case (1 c a w)
  show ?case
  proof (cases "a \<le> w * c * c")
    case True
    then show ?thesis by (simp add: ceil_sqrt_from.simps[of c a w])
  next
    case False
    with 1 have IH: "Suc c \<le> ceil_sqrt_from (Suc c) a w"
      "a \<le> w * ceil_sqrt_from (Suc c) a w * ceil_sqrt_from (Suc c) a w"
      "\<forall>d. Suc c \<le> d \<and> d < ceil_sqrt_from (Suc c) a w \<longrightarrow> w * d * d < a" by auto
    from False 1(2) have eq: "ceil_sqrt_from c a w = ceil_sqrt_from (Suc c) a w"
      by (simp add: ceil_sqrt_from.simps[of c a w])
    have "w * d * d < a" if "c \<le> d" "d < ceil_sqrt_from (Suc c) a w" for d
    proof (cases "d = c")
      case True
      with False show ?thesis by simp
    next
      case False
      with that have "Suc c \<le> d" by simp
      with IH(3) that show ?thesis by blast
    qed
    with IH show ?thesis unfolding eq by auto
  qed
qed

lemma ceil_sqrt_ratio_real:
  assumes "0 < w"
  shows "int (ceil_sqrt_ratio a w) = \<lceil>sqrt (real a / real w)\<rceil>"
proof -
  define r where "r = ceil_sqrt_ratio a w"
  from ceil_sqrt_from_spec[OF assms, of 0 a] have up: "a \<le> w * r * r"
    and low: "\<And>d. d < r \<Longrightarrow> w * d * d < a"
    by (auto simp: r_def ceil_sqrt_ratio_def)
  from up have "real a \<le> real w * (real r)\<^sup>2"
    by (metis of_nat_le_iff of_nat_mult power2_eq_square mult.assoc)
  with assms have "real a / real w \<le> (real r)\<^sup>2"
    by (simp add: field_simps)
  then have le: "sqrt (real a / real w) \<le> real r"
    using real_le_lsqrt by force
  have gt: "real_of_int (int r) - 1 < sqrt (real a / real w)"
  proof (cases r)
    case 0
    have "0 \<le> sqrt (real a / real w)" by simp
    with 0 show ?thesis by linarith
  next
    case (Suc d)
    with low[of d] have "w * d * d < a" by simp
    then have "real w * (real d)\<^sup>2 < real a"
      by (metis of_nat_less_iff of_nat_mult power2_eq_square mult.assoc)
    with assms have "(real d)\<^sup>2 < real a / real w" by (simp add: field_simps)
    then have "real d < sqrt (real a / real w)"
      using real_less_rsqrt by blast
    with Suc show ?thesis by simp
  qed
  from le gt have "\<lceil>sqrt (real a / real w)\<rceil> = int r"
    by (intro ceiling_unique) auto
  then show ?thesis by (simp add: r_def)
qed

lemma ceil_div_real:
  assumes "0 < c"
  shows "int (ceil_div n c) = \<lceil>real n / real c\<rceil>"
proof -
  define q where "q = (n + c - 1) div c"
  have "q * c + (n + c - 1) mod c = n + c - 1"
    unfolding q_def by simp
  moreover have "(n + c - 1) mod c < c" using assms by simp
  ultimately have up: "n \<le> q * c" and low: "q * c < n + c" by linarith+
  from up have "real n \<le> real q * real c"
    by (metis of_nat_le_iff of_nat_mult)
  with assms have le: "real n / real c \<le> real q" by (simp add: field_simps)
  from low have "real q * real c < real n + real c"
    by (metis of_nat_less_iff of_nat_mult of_nat_add)
  with assms have gt: "real q - 1 < real n / real c" by (simp add: field_simps)
  from le gt have "\<lceil>real n / real c\<rceil> = int q"
    by (intro ceiling_unique) auto
  then show ?thesis by (simp add: ceil_div_def q_def)
qed

lemma fold_paste_image:
  "fold (paste_image c w h) (enumerate k imgs) (m, p) =
     (m ++ map_of (rev (layout c w h k (map fst imgs))), p @ layout c w h k (map fst imgs))"
proof (induction imgs arbitrary: k m p)
  case Nil
  then show ?case by (simp add: layout_def)
next
  case (Cons x xs)
  obtain name im where x: "x = (name, im)" by (cases x)
  have step: "paste_image c w h (k, name, im) (m, p) =
      (m(name \<mapsto> ((k mod c) * h, (k div c) * w)), p @ [(name, (k mod c) * h, (k div c) * w)])"
    by (simp add: paste_image_def Let_def)
  let ?v = "((k mod c) * h, (k div c) * w)"
  have m: "m(name \<mapsto> ?v) ++ map_of (rev (layout c w h (Suc k) (map fst xs)))
      = m ++ map_of (rev (layout c w h k (map fst (x # xs))))"
    by (rule ext) (simp add: layout_def x map_add_def split: option.splits)
  have "fold (paste_image c w h) (enumerate k (x # xs)) (m, p) =
      fold (paste_image c w h) (enumerate (Suc k) xs) (m(name \<mapsto> ?v), p @ [(name, ?v)])"
    by (simp add: x step)
  also have "\<dots> = (m(name \<mapsto> ?v) ++ map_of (rev (layout c w h (Suc k) (map fst xs))),
      (p @ [(name, ?v)]) @ layout c w h (Suc k) (map fst xs))"
    by (rule Cons.IH)
  also have "\<dots> = (m ++ map_of (rev (layout c w h k (map fst (x # xs)))),
      p @ layout c w h k (map fst (x # xs)))"
    unfolding m by (simp add: layout_def x)
  finally show ?case .
qed

lemma map_sort_key: "map f (sort_key f xs) = sort (map f xs)"
proof -
  have "sort (map f xs) = map f (sort_key f xs)"
    by (rule properties_for_sort) simp_all
  then show ?thesis by simp
qed

lemma sorted_stems: "map fst (sort_key fst (map (\<lambda>e. (stem e, snd e)) listing)) = sort (map stem listing)"
  by (simp add: map_sort_key comp_def)

lemma create_packed_image_outcome:
  assumes "listing = (f0, (w, h)) # rest"
  shows "snd (create_packed_image listing) = pack_outcome w h (sort (map stem listing))"
proof -
  let ?s = "fold scan_file listing \<lparr>standard = None, images = [], printed = []\<rparr>"
  have st: "standard ?s = Some (w, h, f0)"
    using standard_scan_None[of "\<lparr>standard = None, images = [], printed = []\<rparr>" listing] assms
    by simp
  have im: "images ?s = map (\<lambda>e. (stem e, snd e)) listing"
    using images_scan[of listing "\<lparr>standard = None, images = [], printed = []\<rparr>"] by simp
  have len: "length (sort (map stem listing)) = length listing" by simp
  show ?thesis
    unfolding create_packed_image_def Let_def st im pack_outcome_def
    by (simp add: fold_paste_image sorted_stems del: fold_simps)
qed

lemma create_packed_image_printed:
  "fst (create_packed_image listing) =
     printed (fold scan_file listing \<lparr>standard = None, images = [], printed = []\<rparr>)"
  unfolding create_packed_image_def Let_def
  by (simp split: option.splits prod.splits)

lemma printed_scan_same_size:
  assumes "standard s = Some (w, h, f0)" "list_all (\<lambda>e. snd e = (w, h)) listing"
  shows "printed (fold scan_file listing s) = printed s"
  using assms
proof (induction listing arbitrary: s)
  case Nil
  then show ?case by simp
next
  case (Cons e es)
  obtain name where e: "e = (name, (w, h))" using Cons.prems(2) by (cases e) auto
  from Cons.prems(1) have 1: "standard (scan_file e s) = Some (w, h, f0)"
    and 2: "printed (scan_file e s) = printed s"
    by (simp_all add: scan_file_def e Let_def)
  from Cons.IH[OF 1] Cons.prems(2) 2 show ?case by simp
qed

lemma create_packed_image_no_message:
  assumes "list_all (\<lambda>e. snd e = (w, h)) listing"
  shows "fst (create_packed_image listing) = []"
proof (cases listing)
  case Nil
  then show ?thesis by (simp add: create_packed_image_def)
next
  case (Cons e es)
  obtain name where e: "e = (name, (w, h))" using assms Cons by (cases e) auto
  let ?s = "scan_file e \<lparr>standard = None, images = [], printed = []\<rparr>"
  have 1: "standard ?s = Some (w, h, name)" and 2: "printed ?s = []"
    by (simp_all add: scan_file_def e Let_def)
  from printed_scan_same_size[OF 1, of es] assms Cons 2
  show ?thesis by (simp add: create_packed_image_printed)
qed

lemma ceil_sqrt_ratio_pos:
  assumes "0 < w" "0 < a"
  shows "0 < ceil_sqrt_ratio a w"
proof (rule ccontr)
  assume "\<not> 0 < ceil_sqrt_ratio a w"
  then have "ceil_sqrt_ratio a w = 0" by simp
  with ceil_sqrt_from_spec[OF assms(1), of 0 a] have "a \<le> 0"
    by (simp add: ceil_sqrt_ratio_def)
  with assms(2) show False by simp
qed

lemma map_fst_layout: "map fst (layout c w h k names) = names"
  by (simp add: layout_def comp_def case_prod_unfold)

lemma length_layout: "length (layout c w h k names) = length names"
  by (simp add: layout_def)

lemma nth_layout:
  "i < length names \<Longrightarrow>
   layout c w h k names ! i = (names ! i, ((k + i) mod c) * h, ((k + i) div c) * w)"
  by (simp add: layout_def nth_enumerate_eq)

lemma layout_upt:
  "layout c w h 0 names =
     map (\<lambda>i. (names ! i, (i mod c) * h, (i div c) * w)) [0..<length names]"
  by (rule nth_equalityI) (simp_all add: length_layout nth_layout)

lemma dom_layout: "dom (map_of (rev (layout c w h k names))) = set names"
proof -
  have "dom (map_of (rev (layout c w h k names))) = fst ` set (rev (layout c w h k names))"
    by (rule dom_map_of_conv_image_fst)
  also have "\<dots> = set (map fst (layout c w h k names))" by simp
  finally show ?thesis by (simp only: map_fst_layout)
qed

lemma map_of_layout:
  assumes "distinct names" "i < length names"
  shows "map_of (rev (layout c w h 0 names)) (names ! i) = Some ((i mod c) * h, (i div c) * w)"
proof -
  have "distinct (map fst (rev (layout c w h 0 names)))"
    using assms(1) by (simp add: rev_map[symmetric] map_fst_layout)
  moreover have "(names ! i, (i mod c) * h, (i div c) * w) \<in> set (rev (layout c w h 0 names))"
    using nth_layout[OF assms(2), of c w h 0] assms(2) nth_mem[of i "layout c w h 0 names"]
    by (simp add: length_layout)
  ultimately show ?thesis by simp
qed

text \<open>
  Claim C4. For a directory of \<open>n\<close> images that all have width \<open>w\<close> and height \<open>h\<close>
  (both positive), the packer returns, prints nothing, and with
  \<open>columns = \<lceil>sqrt (h * n / w)\<rceil>\<close> the sheet is \<open>w * columns\<close> wide and
  \<open>h * \<lceil>n / columns\<rceil>\<close> high; the image at index \<open>i\<close> of the names in sorted order is
  pasted at \<open>((i mod columns) * h, (i div columns) * w)\<close>, and that pair is its entry in the
  coordinate map when the names are distinct. For four 16 by 16 images \<^verbatim>\<open>a\<close>, \<^verbatim>\<open>b\<close>, \<^verbatim>\<open>c\<close>,
  \<^verbatim>\<open>d\<close>, listed in any order (here c, a, d, b), there are 2 columns, the sheet is 32 by 32
  and the coordinates are a:(0,0), b:(16,0), c:(0,16), d:(16,16).
\<close>

theorem packer_layout:
  "(listing = (f0, (w, h)) # rest \<and> list_all (\<lambda>e. snd e = (w, h)) rest \<and> 0 < w \<and> 0 < h \<and>
    n = length listing \<and> names = sort (map stem listing) \<and>
    columns = nat \<lceil>sqrt (real h * real n / real w)\<rceil> \<longrightarrow>
      (\<exists>p. create_packed_image listing = ([], Inr p) \<and>
           sheet_width p = w * columns \<and>
           sheet_height p = h * nat \<lceil>real n / real columns\<rceil> \<and>
           pastes p = map (\<lambda>i. (names ! i, (i mod columns) * h, (i div columns) * w)) [0..<n] \<and>
           (distinct names \<longrightarrow>
              (\<forall>i<n. image_coordinates p (names ! i) =
                 Some ((i mod columns) * h, (i div columns) * w))))) \<and>
   (\<exists>p. create_packed_image
           [(''c.png'', (16, 16)), (''a.png'', (16, 16)), (''d.png'', (16, 16)), (''b.png'', (16, 16))]
         = ([], Inr p) \<and>
        nat \<lceil>sqrt (real 16 * real 4 / real 16)\<rceil> = 2 \<and>
        sheet_width p = 32 \<and> sheet_height p = 32 \<and>
        image_coordinates p ''a'' = Some (0, 0) \<and> image_coordinates p ''b'' = Some (16, 0) \<and>
        image_coordinates p ''c'' = Some (0, 16) \<and> image_coordinates p ''d'' = Some (16, 16) \<and>
        dom (image_coordinates p) = {''a'', ''b'', ''c'', ''d''})"
proof (intro conjI impI)
  assume a: "listing = (f0, (w, h)) # rest \<and> list_all (\<lambda>e. snd e = (w, h)) rest \<and> 0 < w \<and> 0 < h \<and>
    n = length listing \<and> names = sort (map stem listing) \<and>
    columns = nat \<lceil>sqrt (real h * real n / real w)\<rceil>"
  then have l: "listing = (f0, (w, h)) # rest" and w: "0 < w" and h: "0 < h"
    and n: "n = length listing" and names: "names = sort (map stem listing)" by blast+
  from a have all: "list_all (\<lambda>e. snd e = (w, h)) listing" by simp
  have ln: "length names = n" by (simp add: names n)
  from l n have "0 < n" by simp
  from a have cdef: "columns = nat \<lceil>sqrt (real h * real n / real w)\<rceil>" by blast
  have "int (ceil_sqrt_ratio (h * n) w) = \<lceil>sqrt (real (h * n) / real w)\<rceil>"
    by (rule ceil_sqrt_ratio_real[OF w])
  then have "int (ceil_sqrt_ratio (h * n) w) = \<lceil>sqrt (real h * real n / real w)\<rceil>"
    by (simp only: of_nat_mult)
  then have c: "ceil_sqrt_ratio (h * n) w = columns" unfolding cdef by linarith
  from ceil_sqrt_ratio_pos[OF w, of "h * n"] h \<open>0 < n\<close> c have cpos: "0 < columns" by simp
  from ceil_div_real[OF cpos, of n] have d: "ceil_div n columns = nat \<lceil>real n / real columns\<rceil>"
    by linarith
  let ?p = "\<lparr>image_width = w, image_height = h,
             image_coordinates = map_of (rev (layout columns w h 0 names)),
             sheet_width = w * columns, sheet_height = h * ceil_div n columns,
             pastes = layout columns w h 0 names\<rparr>"
  have "snd (create_packed_image listing) = pack_outcome w h names"
    unfolding names by (rule create_packed_image_outcome[OF l])
  also have "\<dots> = Inr ?p"
    using w cpos by (simp add: pack_outcome_def ln c)
  finally have s: "snd (create_packed_image listing) = Inr ?p" .
  from create_packed_image_no_message[OF all] have f: "fst (create_packed_image listing) = []" .
  from s f have r: "create_packed_image listing = ([], Inr ?p)"
    by (metis prod.collapse)
  have co: "\<forall>i<n. image_coordinates ?p (names ! i) = Some ((i mod columns) * h, (i div columns) * w)"
    if "distinct names"
    using map_of_layout[OF that, of _ columns w h] by (simp add: ln)
  show "\<exists>p. create_packed_image listing = ([], Inr p) \<and>
           sheet_width p = w * columns \<and>
           sheet_height p = h * nat \<lceil>real n / real columns\<rceil> \<and>
           pastes p = map (\<lambda>i. (names ! i, (i mod columns) * h, (i div columns) * w)) [0..<n] \<and>
           (distinct names \<longrightarrow>
              (\<forall>i<n. image_coordinates p (names ! i) =
                 Some ((i mod columns) * h, (i div columns) * w)))"
    using r co d by (intro exI[of _ ?p]) (simp add: layout_upt ln)
next
  have s: "sort (map stem [(''c.png'', (16, 16)), (''a.png'', (16, 16)), (''d.png'', (16, 16)), (''b.png'', (16, 16))])
      = [''a'', ''b'', ''c'', ''d'']"
    by (simp add: stem_def splitext_def)
  have c: "ceil_sqrt_ratio 64 16 = 2"
    by (simp add: ceil_sqrt_ratio_def ceil_sqrt_from.simps)
  have po: "pack_outcome 16 16 [''a'', ''b'', ''c'', ''d''] =
      Inr \<lparr>image_width = 16, image_height = 16,
           image_coordinates =
             [''a'' \<mapsto> (0, 0), ''b'' \<mapsto> (16, 0), ''c'' \<mapsto> (0, 16), ''d'' \<mapsto> (16, 16)],
           sheet_width = 32, sheet_height = 32,
           pastes = [(''a'', 0, 0), (''b'', 16, 0), (''c'', 0, 16), (''d'', 16, 16)]\<rparr>"
    by (simp add: pack_outcome_def c layout_def ceil_div_def)
  have o: "snd (create_packed_image
      [(''c.png'', (16, 16)), (''a.png'', (16, 16)), (''d.png'', (16, 16)), (''b.png'', (16, 16))])
    = pack_outcome 16 16 [''a'', ''b'', ''c'', ''d'']"
    unfolding s[symmetric] by (rule create_packed_image_outcome) simp
  have f: "fst (create_packed_image
      [(''c.png'', (16, 16)), (''a.png'', (16, 16)), (''d.png'', (16, 16)), (''b.png'', (16, 16))]) = []"
    by (rule create_packed_image_no_message[of 16 16]) simp
  have q: "nat \<lceil>sqrt (real 16 * real 4 / real 16)\<rceil> = 2" by simp
  have d: "dom [''a'' \<mapsto> (0::nat, 0::nat), ''b'' \<mapsto> (16, 0), ''c'' \<mapsto> (0, 16), ''d'' \<mapsto> (16, 16)]
      = {''a'', ''b'', ''c'', ''d''}" by auto
  show "\<exists>p. create_packed_image
           [(''c.png'', (16, 16)), (''a.png'', (16, 16)), (''d.png'', (16, 16)), (''b.png'', (16, 16))]
         = ([], Inr p) \<and>
        nat \<lceil>sqrt (real 16 * real 4 / real 16)\<rceil> = 2 \<and>
        sheet_width p = 32 \<and> sheet_height p = 32 \<and>
        image_coordinates p ''a'' = Some (0, 0) \<and> image_coordinates p ''b'' = Some (16, 0) \<and>
        image_coordinates p ''c'' = Some (0, 16) \<and> image_coordinates p ''d'' = Some (16, 16) \<and>
        dom (image_coordinates p) = {''a'', ''b'', ''c'', ''d''}"
    using o f q unfolding po
    by (cases "create_packed_image
           [(''c.png'', (16, 16)), (''a.png'', (16, 16)), (''d.png'', (16, 16)), (''b.png'', (16, 16))]")
       (auto simp: d)
qed

theorem packer_layout_witness:
  "(0::nat) < 8 \<and>
   list_all (\<lambda>e. snd e = (8::nat, 8::nat)) [(''stone.png'', (8, 8)), (''iron.png'', (8, 8)), (''coal.png'', (8, 8))] \<and>
   sort (map stem [(''wood.png'', (8, 8)), (''stone.png'', (8, 8)), (''iron.png'', (8, 8)), (''coal.png'', (8, 8))])
     = [''coal'', ''iron'', ''stone'', ''wood''] \<and>
   nat \<lceil>sqrt (real 8 * real 4 / real 8)\<rceil> = 2 \<and>
   (\<exists>p. create_packed_image
          [(''wood.png'', (8, 8)), (''stone.png'', (8, 8)), (''iron.png'', (8, 8)), (''coal.png'', (8, 8))]
        = ([], Inr p) \<and>
        sheet_width p = 16 \<and> sheet_height p = 16 \<and>
        pastes p = [(''coal'', 0, 0), (''iron'', 8, 0), (''stone'', 0, 8), (''wood'', 8, 8)] \<and>
        image_coordinates p ''stone'' = Some (0, 8))"
proof -
  let ?L = "[(''wood.png'', (8::nat, 8::nat)), (''stone.png'', (8, 8)), (''iron.png'', (8, 8)), (''coal.png'', (8, 8))]"
  let ?names = "[''coal'', ''iron'', ''stone'', ''wood'']"
  have names: "sort (map stem ?L) = ?names" by (simp add: stem_def splitext_def)
  have cols: "nat \<lceil>sqrt (real 8 * real 4 / real 8)\<rceil> = 2" by simp
  have rows: "nat \<lceil>real 4 / real 2\<rceil> = 2" by simp
  have upt: "[0..<4] = [0, 1, 2, 3::nat]" by (simp add: upt_rec)
  from packer_layout[of ?L "''wood.png''" 8 8
      "[(''stone.png'', (8, 8)), (''iron.png'', (8, 8)), (''coal.png'', (8, 8))]" 4 ?names 2]
    names cols
  obtain p where p: "create_packed_image ?L = ([], Inr p)" "sheet_width p = 8 * 2"
    "sheet_height p = 8 * nat \<lceil>real 4 / real 2\<rceil>"
    "pastes p = map (\<lambda>i. (?names ! i, (i mod 2) * 8, (i div 2) * 8)) [0..<4]"
    "\<forall>i<4. image_coordinates p (?names ! i) = Some ((i mod 2) * 8, (i div 2) * 8)"
    by auto
  have "(2::nat) < 4" by simp
  with p(5) have "image_coordinates p (?names ! 2) = Some ((2 mod 2) * 8, (2 div 2) * 8)"
    by blast
  then have st: "image_coordinates p ''stone'' = Some (0, 8)" by simp
  from p(4) have pa: "pastes p = [(''coal'', 0, 0), (''iron'', 8, 0), (''stone'', 0, 8), (''wood'', 8, 8)]"
    unfolding upt by simp
  from p(1,2,3) rows st pa names cols show ?thesis by simp
qed

text \<open>
  Claim C10. On a directory with no file the packer does not return a sheet with an empty
  coordinate map: the standard size is still \<^verbatim>\<open>None\<close> where the column count multiplies
  it, so the run ends in \<^verbatim>\<open>TypeError\<close>, having printed nothing.
\<close>

theorem create_packed_image_empty:
  "create_packed_image [] = ([], Inl TypeError)"
  by (simp add: create_packed_image_def)

text \<open>
  Claim C1, at two images of width 16 and height 32 (\<^verbatim>\<open>a.png\<close>, \<^verbatim>\<open>b.png\<close>): there are
  2 columns and the sheet is 32 wide and 32 high, but \<^verbatim>\<open>b\<close> is pasted, and mapped, at
  x = 32, which is not below the sheet's width. The x step is the standard height and
  the y step the standard width, while the sheet is sized with the width per column and
  the height per row.
\<close>

theorem non_square_images_leave_sheet:
  "map_sum id (\<lambda>p. (sheet_width p, sheet_height p, pastes p, image_coordinates p ''b''))
     (snd (create_packed_image [(''a.png'', (16, 32)), (''b.png'', (16, 32))]))
   = Inr (32, 32, [(''a'', 0, 0), (''b'', 32, 0)], Some (32, 0))"
proof -
  have s: "sort (map stem [(''a.png'', (16, 32)), (''b.png'', (16, 32))]) = [''a'', ''b'']"
    by (simp add: stem_def splitext_def)
  have c: "ceil_sqrt_ratio 64 16 = 2"
    by (simp add: ceil_sqrt_ratio_def ceil_sqrt_from.simps)
  have "snd (create_packed_image [(''a.png'', (16, 32)), (''b.png'', (16, 32))])
      = pack_outcome 16 32 [''a'', ''b'']"
    unfolding s[symmetric] by (rule create_packed_image_outcome) simp
  then show ?thesis
    by (simp add: pack_outcome_def c layout_def ceil_div_def)
qed

text \<open>
  Claim C8 fails for images of different sizes: the standard size is that of the file
  listed first, and \<^verbatim>\<open>os.listdir\<close> lists in arbitrary order. The same two files, a 16 by
  16 \<^verbatim>\<open>a.png\<close> and a 32 by 32 \<^verbatim>\<open>b.png\<close>, give \<^verbatim>\<open>b\<close> the coordinates (16, 0) when
  \<^verbatim>\<open>a.png\<close> is listed first and (32, 0) when \<^verbatim>\<open>b.png\<close> is.
\<close>

theorem packing_order_counterexample:
  "mset [(''a.png'', (16::nat, 16::nat)), (''b.png'', (32, 32))]
     = mset [(''b.png'', (32, 32)), (''a.png'', (16, 16))] \<and>
   map_sum id (\<lambda>p. image_coordinates p ''b'')
     (snd (create_packed_image [(''a.png'', (16, 16)), (''b.png'', (32, 32))])) = Inr (Some (16, 0)) \<and>
   map_sum id (\<lambda>p. image_coordinates p ''b'')
     (snd (create_packed_image [(''b.png'', (32, 32)), (''a.png'', (16, 16))])) = Inr (Some (32, 0))"
proof -
  have s1: "sort (map stem [(''a.png'', (16, 16)), (''b.png'', (32, 32))]) = [''a'', ''b'']"
    and s2: "sort (map stem [(''b.png'', (32, 32)), (''a.png'', (16, 16))]) = [''a'', ''b'']"
    by (simp_all add: stem_def splitext_def)
  have c1: "ceil_sqrt_ratio 32 16 = 2" and c2: "ceil_sqrt_ratio 64 32 = 2"
    by (simp_all add: ceil_sqrt_ratio_def ceil_sqrt_from.simps)
  have 1: "snd (create_packed_image [(''a.png'', (16, 16)), (''b.png'', (32, 32))])
      = pack_outcome 16 16 [''a'', ''b'']"
    unfolding s1[symmetric] by (rule create_packed_image_outcome) simp
  have 2: "snd (create_packed_image [(''b.png'', (32, 32)), (''a.png'', (16, 16))])
      = pack_outcome 32 32 [''a'', ''b'']"
    unfolding s2[symmetric] by (rule create_packed_image_outcome) simp
  show ?thesis unfolding 1 2
    by (simp add: pack_outcome_def c1 c2 layout_def)
qed

text \<open>
  Claim C8, amended. Two runs on the same files (the two listings hold the same files with
  the same sizes, in any order) in which the file listed first has the same size, as it
  has when all images have one size or the listing order is the same, end the same way:
  with the same exception, or with the same coordinate map, sheet size and placements.
\<close>

theorem packing_order_independent:
  assumes "mset l1 = mset l2" and "map snd (take 1 l1) = map snd (take 1 l2)"
  shows "snd (create_packed_image l1) = snd (create_packed_image l2)"
proof (cases l1)
  case Nil
  with assms(1) have "l2 = []" by simp
  with Nil show ?thesis by simp
next
  case (Cons e1 r1)
  with assms(1) have "l2 \<noteq> []" by auto
  then obtain e2 r2 where l2: "l2 = e2 # r2" by (cases l2) auto
  obtain f1 w h where e1: "e1 = (f1, (w, h))" by (cases e1) auto
  with assms(2) Cons l2 obtain f2 where e2: "e2 = (f2, (w, h))" by (cases e2) auto
  have "mset (map stem l1) = mset (map stem l2)" using assms(1) by (metis mset_map)
  then have "sort (map stem l1) = sort (map stem l2)"
    by (intro properties_for_sort) simp_all
  with create_packed_image_outcome[of l1 f1 w h r1] create_packed_image_outcome[of l2 f2 w h r2]
  show ?thesis by (simp add: Cons l2 e1 e2)
qed

theorem packing_order_independent_witness:
  "mset [(''a.png'', (16::nat, 16::nat)), (''b.png'', (16, 16)), (''c.png'', (16, 16))]
     = mset [(''c.png'', (16, 16)), (''a.png'', (16, 16)), (''b.png'', (16, 16))] \<and>
   map snd (take 1 [(''a.png'', (16::nat, 16::nat)), (''b.png'', (16, 16)), (''c.png'', (16, 16))])
     = map snd (take 1 [(''c.png'', (16::nat, 16::nat)), (''a.png'', (16, 16)), (''b.png'', (16, 16))]) \<and>
   snd (create_packed_image [(''a.png'', (16, 16)), (''b.png'', (16, 16)), (''c.png'', (16, 16))])
     = snd (create_packed_image [(''c.png'', (16, 16)), (''a.png'', (16, 16)), (''b.png'', (16, 16))])"
proof -
  have m: "mset [(''a.png'', (16::nat, 16::nat)), (''b.png'', (16, 16)), (''c.png'', (16, 16))]
     = mset [(''c.png'', (16, 16)), (''a.png'', (16, 16)), (''b.png'', (16, 16))]" by simp
  have t: "map snd (take 1 [(''a.png'', (16::nat, 16::nat)), (''b.png'', (16, 16)), (''c.png'', (16, 16))])
     = map snd (take 1 [(''c.png'', (16::nat, 16::nat)), (''a.png'', (16, 16)), (''b.png'', (16, 16))])"
    by simp
  from packing_order_independent[OF m t] m t show ?thesis by blast
qed

lemma fold_style_item:
  "fst (fold (style_item coords) recipes (styles, ws)) k =
     (if k \<in> simple_name ` set recipes
      then Some (case coords k of
                   Some (x, y) \<Rightarrow> BackgroundPosition (- int x) (- int y)
                 | None \<Rightarrow> Purple)
      else styles k)"
proof (induction recipes arbitrary: styles ws)
  case Nil
  then show ?case by simp
next
  case (Cons r rs)
  show ?case
  proof (cases "coords (simple_name r)")
    case None
    then have "style_item coords r (styles, ws) =
        (styles(simple_name r \<mapsto> Purple), ws @ [MissingIcon (simple_name r)])"
      by (simp add: style_item_def)
    with Cons.IH None show ?thesis by auto
  next
    case (Some xy)
    obtain x y where xy: "xy = (x, y)" by (cases xy)
    with Some have "style_item coords r (styles, ws) =
        (styles(simple_name r \<mapsto> BackgroundPosition (- int x) (- int y)), ws)"
      by (simp add: style_item_def)
    with Cons.IH Some xy show ?thesis by auto
  qed
qed

lemma item_styles_lookup:
  "recipe \<in> set recipes \<Longrightarrow>
   fst (item_styles coords recipes) (simple_name recipe) =
     Some (case coords (simple_name recipe) of
             Some (x, y) \<Rightarrow> BackgroundPosition (- int x) (- int y)
           | None \<Rightarrow> Purple)"
  unfolding item_styles_def by (simp add: fold_style_item)

lemma create_packed_image_dom:
  assumes "create_packed_image listing = (ms, Inr p)"
  shows "dom (image_coordinates p) = stem ` set listing"
proof (cases listing)
  case Nil
  with assms show ?thesis by (simp add: create_packed_image_def)
next
  case (Cons e rest)
  obtain f0 w h where "e = (f0, (w, h))" by (cases e) auto
  with Cons have "snd (create_packed_image listing) = pack_outcome w h (sort (map stem listing))"
    by (intro create_packed_image_outcome) simp
  with assms have "pack_outcome w h (sort (map stem listing)) = Inr p" by simp
  then have "image_coordinates p =
      map_of (rev (layout (ceil_sqrt_ratio (h * length (sort (map stem listing))) w) w h 0
         (sort (map stem listing))))"
    by (auto simp: pack_outcome_def split: if_splits)
  then show ?thesis by (simp only: dom_layout) simp
qed

text \<open>
  Claim C9, amended. The keys of the coordinate map are the stems of the listed file names
  as \<^verbatim>\<open>os.path.splitext\<close> gives them, unchanged. An item gets a background position
  exactly when its name, lowercased and with every character outside a to z removed, is
  one of these stems; otherwise it gets the purple background.
\<close>

theorem icon_lookup_key:
  assumes "create_packed_image listing = (ms, Inr p)"
  shows "dom (image_coordinates p) = stem ` set listing \<and>
    (\<forall>recipes recipe. recipe \<in> set recipes \<longrightarrow>
       ((\<exists>x y. fst (item_styles (image_coordinates p) recipes) (simple_name recipe)
                = Some (BackgroundPosition x y))
          \<longleftrightarrow> simple_name recipe \<in> stem ` set listing) \<and>
       (fst (item_styles (image_coordinates p) recipes) (simple_name recipe) = Some Purple
          \<longleftrightarrow> simple_name recipe \<notin> stem ` set listing))"
proof (intro conjI allI impI)
  show d: "dom (image_coordinates p) = stem ` set listing"
    by (rule create_packed_image_dom[OF assms])
  fix recipes :: "string list" and recipe
  assume r: "recipe \<in> set recipes"
  show "(\<exists>x y. fst (item_styles (image_coordinates p) recipes) (simple_name recipe)
                = Some (BackgroundPosition x y))
          \<longleftrightarrow> simple_name recipe \<in> stem ` set listing"
    unfolding item_styles_lookup[OF r] d[symmetric]
    by (auto split: option.splits)
  show "fst (item_styles (image_coordinates p) recipes) (simple_name recipe) = Some Purple
          \<longleftrightarrow> simple_name recipe \<notin> stem ` set listing"
    unfolding item_styles_lookup[OF r] d[symmetric]
    by (auto split: option.splits)
qed

lemma two_icons:
  "create_packed_image [(''ironore.png'', (16, 16)), (''Gold_Bar.png'', (16, 16))] =
     ([], Inr \<lparr>image_width = 16, image_height = 16,
               image_coordinates = [''Gold_Bar'' \<mapsto> (0, 0), ''ironore'' \<mapsto> (16, 0)],
               sheet_width = 32, sheet_height = 16,
               pastes = [(''Gold_Bar'', 0, 0), (''ironore'', 16, 0)]\<rparr>)"
proof -
  have s: "sort (map stem [(''ironore.png'', (16, 16)), (''Gold_Bar.png'', (16, 16))])
      = [''Gold_Bar'', ''ironore'']"
    by (simp add: stem_def splitext_def)
  have c: "ceil_sqrt_ratio 32 16 = 2"
    by (simp add: ceil_sqrt_ratio_def ceil_sqrt_from.simps)
  have "snd (create_packed_image [(''ironore.png'', (16, 16)), (''Gold_Bar.png'', (16, 16))])
      = pack_outcome 16 16 [''Gold_Bar'', ''ironore'']"
    unfolding s[symmetric] by (rule create_packed_image_outcome) simp
  moreover have "fst (create_packed_image [(''ironore.png'', (16, 16)), (''Gold_Bar.png'', (16, 16))]) = []"
    by (rule create_packed_image_no_message[of 16 16]) simp
  ultimately show ?thesis
    by (cases "create_packed_image [(''ironore.png'', (16, 16)), (''Gold_Bar.png'', (16, 16))]")
       (simp add: pack_outcome_def c layout_def ceil_div_def)
qed

theorem icon_lookup_key_witness:
  "(\<exists>p. create_packed_image [(''ironore.png'', (16, 16)), (''Gold_Bar.png'', (16, 16))] = ([], Inr p) \<and>
        dom (image_coordinates p) = {''ironore'', ''Gold_Bar''} \<and>
        simple_name ''Iron Ore'' = ''ironore'' \<and> simple_name ''Gold Bar'' = ''goldbar'' \<and>
        (\<exists>x y. fst (item_styles (image_coordinates p) [''Iron Ore'', ''Gold Bar'']) ''ironore''
               = Some (BackgroundPosition x y)) \<and>
        fst (item_styles (image_coordinates p) [''Iron Ore'', ''Gold Bar'']) ''goldbar'' = Some Purple)"
proof -
  let ?L = "[(''ironore.png'', (16::nat, 16::nat)), (''Gold_Bar.png'', (16, 16))]"
  from two_icons obtain p where p: "create_packed_image ?L = ([], Inr p)" by blast
  have st: "stem ` set ?L = {''ironore'', ''Gold_Bar''}"
    by (simp add: stem_def splitext_def)
  have sn: "simple_name ''Iron Ore'' = ''ironore''" "simple_name ''Gold Bar'' = ''goldbar''"
    by (simp_all add: simple_name_def lower_def lower_char_def less_eq_char_def char_of_def bit_Suc_0_iff)
  from icon_lookup_key[OF p] have d: "dom (image_coordinates p) = stem ` set ?L"
    and m: "\<And>recipes recipe. recipe \<in> set (recipes :: string list) \<Longrightarrow>
       ((\<exists>x y. fst (item_styles (image_coordinates p) recipes) (simple_name recipe)
                = Some (BackgroundPosition x y))
          \<longleftrightarrow> simple_name recipe \<in> stem ` set ?L) \<and>
       (fst (item_styles (image_coordinates p) recipes) (simple_name recipe) = Some Purple
          \<longleftrightarrow> simple_name recipe \<notin> stem ` set ?L)"
    by blast+
  from m[of "''Iron Ore''" "[''Iron Ore'', ''Gold Bar'']"]
  have 1: "\<exists>x y. fst (item_styles (image_coordinates p) [''Iron Ore'', ''Gold Bar'']) ''ironore''
               = Some (BackgroundPosition x y)"
    unfolding st sn by simp
  from m[of "''Gold Bar''" "[''Iron Ore'', ''Gold Bar'']"]
  have 2: "fst (item_styles (image_coordinates p) [''Iron Ore'', ''Gold Bar'']) ''goldbar'' = Some Purple"
    unfolding st sn by simp
  from p d st sn 1 2 show ?thesis by auto
qed

text \<open>
  Claim C9 fails for a file name that is not already in lower-case letters only: the icon
  \<^verbatim>\<open>Iron_Ore.png\<close> is kept under the key \<^verbatim>\<open>Iron_Ore\<close>, not \<^verbatim>\<open>ironore\<close>, so the item
  \<^verbatim>\<open>Iron Ore\<close>, looked up as \<^verbatim>\<open>ironore\<close>, finds no icon although the stem normalizes to
  the same key.
\<close>

theorem icon_key_not_normalized:
  "simple_name ''Iron Ore'' = ''ironore'' \<and>
   simple_name (stem (''Iron_Ore.png'', (16, 16))) = ''ironore'' \<and>
   map_sum id (\<lambda>p. (image_coordinates p ''Iron_Ore'', image_coordinates p ''ironore'',
                     fst (item_styles (image_coordinates p) [''Iron Ore'']) ''ironore'',
                     snd (item_styles (image_coordinates p) [''Iron Ore''])))
     (snd (create_packed_image [(''Iron_Ore.png'', (16, 16))]))
   = Inr (Some (0, 0), None, Some Purple, [MissingIcon ''ironore''])"
proof -
  have s: "sort (map stem [(''Iron_Ore.png'', (16, 16))]) = [''Iron_Ore'']"
    by (simp add: stem_def splitext_def)
  have c: "ceil_sqrt_ratio 16 16 = 1"
    by (simp add: ceil_sqrt_ratio_def ceil_sqrt_from.simps)
  have sn: "simple_name ''Iron Ore'' = ''ironore''" "simple_name ''Iron_Ore'' = ''ironore''"
    by (simp_all add: simple_name_def lower_def lower_char_def less_eq_char_def char_of_def bit_Suc_0_iff)
  have "snd (create_packed_image [(''Iron_Ore.png'', (16, 16))]) = pack_outcome 16 16 [''Iron_Ore'']"
    unfolding s[symmetric] by (rule create_packed_image_outcome) simp
  then show ?thesis
    by (simp add: pack_outcome_def c layout_def ceil_div_def sn item_styles_def style_item_def
        stem_def splitext_def)
qed

lemma ceil_div_covers:
  assumes "0 < c"
  shows "n \<le> ceil_div n c * c"
proof -
  have "(n + c - 1) div c * c + (n + c - 1) mod c = n + c - 1" by simp
  moreover have "(n + c - 1) mod c < c" using assms by simp
  ultimately show ?thesis unfolding ceil_div_def by linarith
qed

lemma cell_inj:
  assumes "0 < c" "0 < w" "0 < h"
    and "((i mod c) * h, (i div c) * w) = ((j mod c) * h, (j div c) * w)"
  shows "i = (j::nat)"
proof -
  from assms have "i mod c = j mod c" "i div c = j div c" by simp_all
  then show ?thesis by (metis div_mult_mod_eq)
qed

lemma map_of_layout_SomeD:
  assumes "map_of (rev (layout c w h 0 names)) name = Some xy"
  shows "\<exists>i<length names. name = names ! i \<and> xy = ((i mod c) * h, (i div c) * w)"
proof -
  from map_of_SomeD[OF assms] have "(name, xy) \<in> set (layout c w h 0 names)" by simp
  then show ?thesis unfolding layout_upt by auto
qed

text \<open>
  What does hold of the coordinate map for \<open>n\<close> images of one size with distinct stems:
  it has exactly \<open>n\<close> entries, one per stem, no two at the same coordinates; and when the
  images are square every coordinate lies within the sheet.
\<close>

lemma same_size_images_packed:
  assumes l: "listing = (f0, (w, h)) # rest" and same: "list_all (\<lambda>e. snd e = (w, h)) rest"
    and w: "0 < w" and h: "0 < h" and d: "distinct (map stem listing)"
  shows "\<exists>p. create_packed_image listing = ([], Inr p) \<and>
           dom (image_coordinates p) = stem ` set listing \<and>
           card (dom (image_coordinates p)) = length listing \<and>
           inj_on (image_coordinates p) (dom (image_coordinates p)) \<and>
           (w = h \<longrightarrow> (\<forall>name x y. image_coordinates p name = Some (x, y) \<longrightarrow>
                         x < sheet_width p \<and> y < sheet_height p))"
proof -
  define names where "names = sort (map stem listing)"
  define n where "n = length listing"
  define c where "c = ceil_sqrt_ratio (h * n) w"
  have ln: "length names = n" by (simp add: names_def n_def)
  have dn: "distinct names" using d by (simp add: names_def)
  from l have "0 < n" by (simp add: n_def)
  with ceil_sqrt_ratio_pos[OF w, of "h * n"] h have cpos: "0 < c" by (simp add: c_def)
  let ?p = "\<lparr>image_width = w, image_height = h,
             image_coordinates = map_of (rev (layout c w h 0 names)),
             sheet_width = w * c, sheet_height = h * ceil_div n c,
             pastes = layout c w h 0 names\<rparr>"
  have "snd (create_packed_image listing) = pack_outcome w h names"
    unfolding names_def by (rule create_packed_image_outcome[OF l])
  also have "\<dots> = Inr ?p" using w cpos by (simp add: pack_outcome_def ln c_def)
  finally have s: "snd (create_packed_image listing) = Inr ?p" .
  from same l have "list_all (\<lambda>e. snd e = (w, h)) listing" by simp
  from create_packed_image_no_message[OF this] s
  have r: "create_packed_image listing = ([], Inr ?p)" by (metis prod.collapse)
  have dm: "dom (image_coordinates ?p) = stem ` set listing"
    by (rule create_packed_image_dom[OF r])
  have "card (stem ` set listing) = length (map stem listing)"
    using distinct_card[OF d] by simp
  with dm have cd: "card (dom (image_coordinates ?p)) = length listing" by simp
  have inj: "inj_on (image_coordinates ?p) (dom (image_coordinates ?p))"
  proof (rule inj_onI)
    fix a b
    assume a: "a \<in> dom (image_coordinates ?p)" and b: "b \<in> dom (image_coordinates ?p)"
      and e: "image_coordinates ?p a = image_coordinates ?p b"
    from a obtain xy where xa: "map_of (rev (layout c w h 0 names)) a = Some xy" by auto
    with e have xb: "map_of (rev (layout c w h 0 names)) b = Some xy" by simp
    from map_of_layout_SomeD[OF xa] obtain i where
      i: "a = names ! i" "xy = ((i mod c) * h, (i div c) * w)" by blast
    from map_of_layout_SomeD[OF xb] obtain j where
      j: "b = names ! j" "xy = ((j mod c) * h, (j div c) * w)" by blast
    from i(2) j(2) have "((i mod c) * h, (i div c) * w) = ((j mod c) * h, (j div c) * w)"
      by (rule subst)
    then have "i = j" by (rule cell_inj[OF cpos w h])
    with i(1) j(1) show "a = b" by simp
  qed
  have bounds: "x < sheet_width ?p \<and> y < sheet_height ?p"
    if sq: "w = h" and co: "image_coordinates ?p name = Some (x, y)" for name x y
  proof -
    from co have "map_of (rev (layout c w h 0 names)) name = Some (x, y)" by simp
    from map_of_layout_SomeD[OF this] obtain i where
      i: "i < length names" "(x, y) = ((i mod c) * h, (i div c) * w)" by blast
    have "i mod c < c" using cpos by simp
    then have "(i mod c) * w < c * w" using w by simp
    then have x: "x < w * c" using i(2) sq by (simp add: mult.commute)
    from i(1) ln ceil_div_covers[OF cpos, of n] have "i < ceil_div n c * c" by simp
    then have "i div c < ceil_div n c" using cpos by (simp add: less_mult_imp_div_less)
    then have "(i div c) * w < ceil_div n c * w" using w by simp
    then have y: "y < h * ceil_div n c" using i(2) sq by (simp add: mult.commute)
    from x y show ?thesis by simp
  qed
  from r dm cd inj bounds show ?thesis
    by (intro exI[of _ ?p]) blast
qed

section \<open>Recipe validator: proofs\<close>

lemma bind_run_Inr: "bind_run (ms, Inr x) f = (ms @ fst (f x), snd (f x))"
  by (simp add: bind_run_def split: prod.splits)

lemma bind_run_Inl: "bind_run (ms, Inl e) f = (ms, Inl e)"
  by (simp add: bind_run_def)

lemma fold_run_unit:
  assumes "\<And>x. x \<in> set xs \<Longrightarrow> f x () = (g x, Inr ())"
  shows "fold_run f xs () = (concat (map g xs), Inr ())"
  using assms
proof (induction xs)
  case Nil
  then show ?case by simp
next
  case (Cons x xs)
  then have "f x () = (g x, Inr ())" and "fold_run f xs () = (concat (map g xs), Inr ())"
    by simp_all
  then show ?case by (simp add: bind_run_Inr)
qed

lemma fold_run_state:
  assumes "\<And>x s. x \<in> set xs \<Longrightarrow> f x s = (g x, Inr (s + d x))"
  shows "fold_run f xs (s::nat) = (concat (map g xs), Inr (s + sum_list (map d xs)))"
  using assms
proof (induction xs arbitrary: s)
  case Nil
  then show ?case by simp
next
  case (Cons x xs)
  then have 1: "f x s = (g x, Inr (s + d x))"
    and 2: "fold_run f xs (s + d x) = (concat (map g xs), Inr (s + d x + sum_list (map d xs)))"
    by simp_all
  then show ?case by (simp add: bind_run_Inr add.assoc)
qed

lemma key_order_ok:
  "j < length recipe_keys \<Longrightarrow> snd (key_order calculator_name item_name i recipe_keys j) = Inr ()"
  by (simp add: key_order_def)

lemma lint_keys_ok:
  assumes "3 \<le> length recipe"
  shows "snd (lint_keys calculator_name item_name i recipe) = Inr ()"
proof -
  have k: "snd (key_order calculator_name item_name i (map fst recipe) j) = Inr ()" if "j < 3" for j
    using that assms by (intro key_order_ok) simp
  have b: "snd (bind_run r f) = Inr ()" if "snd r = Inr ()" "snd (f ()) = Inr ()"
    for r :: "unit run" and f :: "unit \<Rightarrow> unit run"
    using that by (cases r) (auto simp: bind_run_def split: prod.splits)
  show ?thesis
    unfolding lint_keys_def Let_def
    by (intro b k) simp_all
qed

lemma count_raw_resource_ok:
  assumes "map_of recipe ''recipe_type'' \<noteq> None"
  shows "count_raw_resource calculator_name item_name recipe n =
    (if map_of recipe ''recipe_type'' = Some (YStr ''Raw Resource'') \<and> recipe \<noteq> raw_resource item_name
     then [InvalidRawResource calculator_name item_name] else [],
     Inr (n + (if recipe = raw_resource item_name then 1 else 0)))"
proof -
  have "map_of (raw_resource item_name) ''recipe_type'' = Some (YStr ''Raw Resource'')"
    by (simp add: raw_resource_def)
  with assms show ?thesis
    by (auto simp: count_raw_resource_def)
qed

lemma concat_map_if:
  "concat (map (\<lambda>x. if P x then [c] else []) xs) = map (\<lambda>x. c) (filter P xs)"
  by (induction xs) auto

lemma sum_list_if: "sum_list (map (\<lambda>x. if P x then 1 else 0) xs) = length (filter P xs)"
  by (induction xs) auto

lemma lint_keys_loop:
  assumes "list_all (\<lambda>recipe. 3 \<le> length recipe) recipes"
  shows "fold_run (\<lambda>(i, recipe) _. lint_keys calculator_name item_name i recipe)
          (enumerate 0 recipes) ()
      = (concat (map (\<lambda>(i, recipe). fst (lint_keys calculator_name item_name i recipe))
               (enumerate 0 recipes)), Inr ())"
proof (rule fold_run_unit)
  fix x assume "x \<in> set (enumerate 0 recipes)"
  moreover obtain i r where x: "x = (i, r)" by (cases x)
  ultimately have "r \<in> set recipes"
    by (auto simp: in_set_enumerate_eq)
  with assms have "3 \<le> length r" by (simp add: list_all_iff)
  from lint_keys_ok[OF this, of calculator_name item_name i]
  show "(case x of (i, recipe) \<Rightarrow> \<lambda>_. lint_keys calculator_name item_name i recipe) () =
       (case x of (i, recipe) \<Rightarrow> fst (lint_keys calculator_name item_name i recipe), Inr ())"
    unfolding x by (cases "lint_keys calculator_name item_name i r") simp
qed

lemma count_raw_resource_loop:
  assumes "list_all (\<lambda>recipe. map_of recipe ''recipe_type'' \<noteq> None) recipes"
  shows "fold_run (count_raw_resource calculator_name item_name) recipes 0 =
      (map (\<lambda>recipe. InvalidRawResource calculator_name item_name)
         (filter (\<lambda>recipe. map_of recipe ''recipe_type'' = Some (YStr ''Raw Resource'') \<and>
                    recipe \<noteq> raw_resource item_name) recipes),
       Inr (length (filter (\<lambda>recipe. recipe = raw_resource item_name) recipes)))"
proof -
  from assms have t: "\<And>r. r \<in> set recipes \<Longrightarrow> map_of r ''recipe_type'' \<noteq> None"
    by (simp add: list_all_iff)
  show ?thesis
    using fold_run_state[of recipes "count_raw_resource calculator_name item_name"
        "\<lambda>recipe. if map_of recipe ''recipe_type'' = Some (YStr ''Raw Resource'') \<and> recipe \<noteq> raw_resource item_name
           then [InvalidRawResource calculator_name item_name] else []"
        "\<lambda>recipe. if recipe = raw_resource item_name then 1 else 0" 0]
      count_raw_resource_ok[OF t]
    by (simp add: concat_map_if sum_list_if)
qed

text \<open>
  Claim C5, amended. For the recipes of an item that all have at least three keys and a
  \<^verbatim>\<open>recipe_type\<close> (so that \<^verbatim>\<open>lint_recipe\<close> returns), \<^verbatim>\<open>lint_recipe\<close> prints, after the
  messages of the key checks: one \<open>InvalidRawResource\<close> for each recipe whose
  \<^verbatim>\<open>recipe_type\<close> is \<^verbatim>\<open>Raw Resource\<close> and that is not exactly
  \<^verbatim>\<open>{output: 1, recipe_type: Raw Resource, requirements: {item_name: 0}}\<close>; then
  \<open>MissingRawResource\<close> when no recipe is exactly that, or one single
  \<open>OnlyOneRawResource\<close> ("must have only one") when more than one is, however many.
\<close>

theorem raw_resource_issues:
  assumes "list_all (\<lambda>recipe. 3 \<le> length recipe \<and> map_of recipe ''recipe_type'' \<noteq> None) recipes"
  shows "lint_recipe calculator_name item_name recipes =
    (concat (map (\<lambda>(i, recipe). fst (lint_keys calculator_name item_name i recipe))
               (enumerate 0 recipes))
     @ map (\<lambda>recipe. InvalidRawResource calculator_name item_name)
         (filter (\<lambda>recipe. map_of recipe ''recipe_type'' = Some (YStr ''Raw Resource'') \<and>
                    recipe \<noteq> raw_resource item_name) recipes)
     @ (if length (filter (\<lambda>recipe. recipe = raw_resource item_name) recipes) = 0
        then [MissingRawResource calculator_name item_name]
        else if length (filter (\<lambda>recipe. recipe = raw_resource item_name) recipes) > 1
        then [OnlyOneRawResource calculator_name item_name]
        else []),
     Inr ())"
proof -
  from assms have l: "list_all (\<lambda>recipe. 3 \<le> length recipe) recipes"
    and t: "list_all (\<lambda>recipe. map_of recipe ''recipe_type'' \<noteq> None) recipes"
    by (auto simp: list_all_iff)
  show ?thesis
    unfolding lint_recipe_def lint_keys_loop[OF l] count_raw_resource_loop[OF t] bind_run_Inr
    by simp
qed

lemmas validator_eval =
  sanity_checks_def lint_recipe_def lint_keys_def key_order_def count_raw_resource_def
  raw_resource_def ensure_valid_requirements_def check_requirements_def check_requirement_def
  bind_run_def required_keys_def optional_keys_def valid_keys_def Let_def

theorem raw_resource_issues_witness:
  "list_all (\<lambda>recipe. 3 \<le> length recipe \<and> map_of recipe ''recipe_type'' \<noteq> None)
     [raw_resource ''wood'',
      [(''output'', YInt 1), (''recipe_type'', YStr ''Raw Resource''),
       (''requirements'', YMap [(''stone'', YInt 0)])],
      [(''output'', YInt 2), (''recipe_type'', YStr ''Raw Resource''),
       (''requirements'', YMap [(''wood'', YInt 0)])]] \<and>
   lint_recipe ''demo'' ''wood''
     [raw_resource ''wood'',
      [(''output'', YInt 1), (''recipe_type'', YStr ''Raw Resource''),
       (''requirements'', YMap [(''stone'', YInt 0)])],
      [(''output'', YInt 2), (''recipe_type'', YStr ''Raw Resource''),
       (''requirements'', YMap [(''wood'', YInt 0)])]]
   = ([InvalidRawResource ''demo'' ''wood'', InvalidRawResource ''demo'' ''wood''], Inr ())"
  using raw_resource_issues[of
      "[raw_resource ''wood'',
        [(''output'', YInt 1), (''recipe_type'', YStr ''Raw Resource''),
         (''requirements'', YMap [(''stone'', YInt 0)])],
        [(''output'', YInt 2), (''recipe_type'', YStr ''Raw Resource''),
         (''requirements'', YMap [(''wood'', YInt 0)])]]" "''demo''" "''wood''"]
  by (simp add: validator_eval)

text \<open>
  Claim C5 fails for more than one conforming recipe: the issue is not reported once per
  offending recipe. An item with three conforming Raw Resource recipes gets exactly one
  message, the "must have only one" line, and no \<open>InvalidRawResource\<close>.
\<close>

theorem three_raw_resources_one_issue:
  "lint_recipe ''demo'' ''wood'' [raw_resource ''wood'', raw_resource ''wood'', raw_resource ''wood'']
     = ([OnlyOneRawResource ''demo'' ''wood''], Inr ())"
  by (simp add: validator_eval)

text \<open>
  Claim C2, at two malformed recipes. A recipe with two keys makes \<^verbatim>\<open>lint_recipe\<close> print
  that \<^verbatim>\<open>requirements\<close> is missing and then raise \<^verbatim>\<open>IndexError\<close> at
  \<^verbatim>\<open>recipe_keys[2]\<close>; a recipe with three keys but no \<^verbatim>\<open>recipe_type\<close> passes the first
  loop and raises \<^verbatim>\<open>KeyError\<close> at \<^verbatim>\<open>recipe['recipe_type']\<close>. Neither run completes.
\<close>

theorem sanity_checks_raise:
  "sanity_checks ''demo''
     [(''wood'', [[(''output'', YInt 1), (''recipe_type'', YStr ''Raw Resource'')]])]
     = ([MissingKey ''demo'' ''requirements'' ''wood'' 0], Inl IndexError) \<and>
   sanity_checks ''demo''
     [(''wood'', [[(''output'', YInt 1), (''requirements'', YMap [(''wood'', YInt 0)]),
                  (''extra_data'', YStr ''x'')]])]
     = ([MissingKey ''demo'' ''recipe_type'' ''wood'' 0, KeyOrder ''demo'' ''recipe_type'' ''wood'' 0,
         KeyOrder ''demo'' ''requirements'' ''wood'' 0], Inl KeyError)"
  by (simp add: validator_eval)

lemma check_requirement_entry:
  assumes "map_of recipe ''requirements'' = Some (YMap kvs)" "map_of kvs k = Some (YInt q)"
  shows "check_requirement resources resource recipe k () =
     (requirement_issue (set (map fst resources)) resource (k, q), Inr ())"
  using assms by (simp add: check_requirement_def requirement_issue_def)

lemma the_int_Some: "the_int v \<noteq> None \<Longrightarrow> v = YInt (the (the_int v))"
  by (cases v) auto

lemma check_requirements_entries:
  assumes "requirement_entries recipe = Some entries"
  shows "check_requirements resources resource recipe () =
     (concat (map (requirement_issue (set (map fst resources)) resource) entries), Inr ())"
proof -
  from assms obtain kvs where r: "map_of recipe ''requirements'' = Some (YMap kvs)"
    and d: "distinct (map fst kvs)" and i: "list_all (\<lambda>kv. the_int (snd kv) \<noteq> None) kvs"
    and e: "entries = map (\<lambda>kv. (fst kv, the (the_int (snd kv)))) kvs"
    by (auto simp: requirement_entries_def split: option.splits yaml.splits if_splits)
  let ?q = "\<lambda>k. the (the_int (the (map_of kvs k)))"
  have "fold_run (check_requirement resources resource recipe) (map fst kvs) () =
      (concat (map (\<lambda>k. requirement_issue (set (map fst resources)) resource (k, ?q k)) (map fst kvs)),
       Inr ())"
  proof (rule fold_run_unit)
    fix k assume "k \<in> set (map fst kvs)"
    then obtain v where kv: "(k, v) \<in> set kvs" by auto
    with d have m: "map_of kvs k = Some v" by simp
    from kv i have "the_int v \<noteq> None" by (auto simp: list_all_iff)
    then have "v = YInt (the (the_int v))" by (rule the_int_Some)
    with m have "map_of kvs k = Some (YInt (?q k))" by simp
    from check_requirement_entry[OF r this]
    show "check_requirement resources resource recipe k () =
        (requirement_issue (set (map fst resources)) resource (k, ?q k), Inr ())" .
  qed
  moreover have "map (\<lambda>k. requirement_issue (set (map fst resources)) resource (k, ?q k)) (map fst kvs)
      = map (requirement_issue (set (map fst resources)) resource) entries"
    unfolding e using d by (auto simp: comp_def)
  ultimately show ?thesis
    by (simp add: check_requirements_def r)
qed

lemma fold_run_unit_returns:
  assumes "\<And>x. x \<in> set xs \<Longrightarrow> snd (f x ()) = Inr ()"
  shows "snd (fold_run f xs ()) = Inr ()"
proof -
  have "fold_run f xs () = (concat (map (\<lambda>x. fst (f x ())) xs), Inr ())"
  proof (rule fold_run_unit)
    fix x assume "x \<in> set xs"
    from assms[OF this] show "f x () = (fst (f x ()), Inr ())"
      by (cases "f x ()") simp
  qed
  then show ?thesis by simp
qed

lemma ensure_valid_requirements_returns:
  assumes "list_all (\<lambda>item. list_all (\<lambda>recipe. requirement_entries recipe \<noteq> None) (snd item))
     resources"
  shows "snd (ensure_valid_requirements resources) = Inr ()"
  unfolding ensure_valid_requirements_def
proof (rule fold_run_unit_returns)
  fix x assume x: "x \<in> set resources"
  obtain resource recipes where xe: "x = (resource, recipes)" by (cases x)
  from assms x xe have w: "\<And>r. r \<in> set recipes \<Longrightarrow> requirement_entries r \<noteq> None"
    by (auto simp: list_all_iff)
  have "snd (fold_run (check_requirements resources resource) recipes ()) = Inr ()"
  proof (rule fold_run_unit_returns)
    fix r assume "r \<in> set recipes"
    from w[OF this] obtain entries where "requirement_entries r = Some entries" by auto
    from check_requirements_entries[OF this]
    show "snd (check_requirements resources resource r ()) = Inr ()" by simp
  qed
  then show "snd ((case x of (resource, recipes) \<Rightarrow>
           \<lambda>u. fold_run (check_requirements resources resource) recipes ()) ()) = Inr ()"
    unfolding xe by simp
qed

text \<open>
  What \<^verbatim>\<open>ensure_valid_requirements\<close> does where it is not cut short: for resources in
  which every recipe's \<^verbatim>\<open>requirements\<close> is a mapping to integers it returns, and what it
  prints is, for every requirement entry (target, quantity) of every recipe of every item,
  in order: \<open>UnknownRequirement\<close> when the target is not an item name; otherwise
  \<open>PositiveRequirement\<close> when the quantity is positive; otherwise nothing.
\<close>

theorem requirement_issues:
  assumes "list_all (\<lambda>item. list_all (\<lambda>recipe. requirement_entries recipe \<noteq> None) (snd item))
     resources"
  shows "ensure_valid_requirements resources =
    (concat (map (\<lambda>(resource, recipes).
       concat (map (\<lambda>recipe.
         concat (map (requirement_issue (set (map fst resources)) resource)
                   (the (requirement_entries recipe)))) recipes)) resources),
     Inr ())"
  unfolding ensure_valid_requirements_def
proof (rule fold_run_unit)
  fix x assume x: "x \<in> set resources"
  obtain resource recipes where xe: "x = (resource, recipes)" by (cases x)
  from assms x xe have w: "\<And>r. r \<in> set recipes \<Longrightarrow> requirement_entries r \<noteq> None"
    by (auto simp: list_all_iff)
  have "fold_run (check_requirements resources resource) recipes () =
      (concat (map (\<lambda>recipe. concat (map (requirement_issue (set (map fst resources)) resource)
                   (the (requirement_entries recipe)))) recipes), Inr ())"
  proof (rule fold_run_unit)
    fix r assume "r \<in> set recipes"
    from w[OF this] obtain entries where "requirement_entries r = Some entries" by auto
    from check_requirements_entries[OF this] this
    show "check_requirements resources resource r () =
       (concat (map (requirement_issue (set (map fst resources)) resource)
          (the (requirement_entries r))), Inr ())" by simp
  qed
  then show "(case x of (resource, recipes) \<Rightarrow>
           \<lambda>u. fold_run (check_requirements resources resource) recipes ()) () =
       (case x of (resource, recipes) \<Rightarrow>
          concat (map (\<lambda>recipe. concat (map (requirement_issue (set (map fst resources)) resource)
                   (the (requirement_entries recipe)))) recipes), Inr ())"
    unfolding xe by simp
qed

theorem requirement_issues_witness:
  "list_all (\<lambda>item. list_all (\<lambda>recipe. requirement_entries recipe \<noteq> None) (snd item))
     [(''wood'', [raw_resource ''wood'']),
      (''plank'', [[(''output'', YInt 4), (''recipe_type'', YStr ''Crafting''),
                   (''requirements'', YMap [(''wood'', YInt (- 3)), (''stick'', YInt 3),
                                            (''plank'', YInt 2)])]])] \<and>
   ensure_valid_requirements
     [(''wood'', [raw_resource ''wood'']),
      (''plank'', [[(''output'', YInt 4), (''recipe_type'', YStr ''Crafting''),
                   (''requirements'', YMap [(''wood'', YInt (- 3)), (''stick'', YInt 3),
                                            (''plank'', YInt 2)])]])]
   = ([UnknownRequirement ''plank'' ''stick'', PositiveRequirement ''plank'' ''plank''], Inr ())"
  using requirement_issues[of
     "[(''wood'', [raw_resource ''wood'']),
      (''plank'', [[(''output'', YInt 4), (''recipe_type'', YStr ''Crafting''),
                   (''requirements'', YMap [(''wood'', YInt (- 3)), (''stick'', YInt 3),
                                            (''plank'', YInt 2)])]])]"]
  by (simp add: requirement_entries_def requirement_issue_def raw_resource_def)

text \<open>
  Claim C6, at resources where an earlier recipe has no \<^verbatim>\<open>requirements\<close>. Item \<^verbatim>\<open>a\<close> has
  the recipe \<^verbatim>\<open>{output: 1, recipe_type: Raw Resource, extra_data: x}\<close>, and item \<^verbatim>\<open>b\<close>,
  after it, a recipe that requires \<^verbatim>\<open>{zzz: 3, b: 2}\<close>: an unknown target and a positive
  quantity. \<^verbatim>\<open>recipe["requirements"]\<close> raises \<^verbatim>\<open>KeyError\<close> at the recipe of \<^verbatim>\<open>a\<close>, so
  nothing is printed for the two entries of \<^verbatim>\<open>b\<close>. With the raw resource recipe in the
  place of the malformed one, the same two entries get their two issues.
\<close>

theorem missing_requirements_hides_issues:
  "ensure_valid_requirements
     [(''a'', [[(''output'', YInt 1), (''recipe_type'', YStr ''Raw Resource''),
                (''extra_data'', YStr ''x'')]]),
      (''b'', [raw_resource ''b'',
               [(''output'', YInt 1), (''recipe_type'', YStr ''Crafting''),
                (''requirements'', YMap [(''zzz'', YInt 3), (''b'', YInt 2)])]])]
     = ([], Inl KeyError) \<and>
   ensure_valid_requirements
     [(''a'', [raw_resource ''a'']),
      (''b'', [raw_resource ''b'',
               [(''output'', YInt 1), (''recipe_type'', YStr ''Crafting''),
                (''requirements'', YMap [(''zzz'', YInt 3), (''b'', YInt 2)])]])]
     = ([UnknownRequirement ''b'' ''zzz'', PositiveRequirement ''b'' ''b''], Inr ())"
  by (simp add: validator_eval)

text \<open>
  On recipes that are all well formed the sanity checks return: the exceptions of the
  validator come from malformed recipes only.
\<close>

lemma well_formed_recipes_checked:
  assumes "list_all (\<lambda>item. list_all well_formed (snd item)) resources"
  shows "snd (sanity_checks calculator_name resources) = Inr ()"
proof -
  from assms have wf: "\<And>item r. item \<in> set resources \<Longrightarrow> r \<in> set (snd item) \<Longrightarrow> well_formed r"
    by (auto simp: list_all_iff)
  have 1: "snd (fold_run (\<lambda>(recipe, item_recipes) u. lint_recipe calculator_name recipe item_recipes)
          resources ()) = Inr ()"
  proof (rule fold_run_unit_returns)
    fix x assume x: "x \<in> set resources"
    obtain name rs where xe: "x = (name, rs)" by (cases x)
    from wf[OF x] xe have "list_all (\<lambda>recipe. 3 \<le> length recipe \<and> map_of recipe ''recipe_type'' \<noteq> None) rs"
      by (auto simp: list_all_iff well_formed_def)
    then have "list_all (\<lambda>recipe. 3 \<le> length recipe) rs"
      and "list_all (\<lambda>recipe. map_of recipe ''recipe_type'' \<noteq> None) rs"
      by (auto simp: list_all_iff)
    from lint_keys_loop[OF this(1)] count_raw_resource_loop[OF this(2)]
    show "snd ((case x of (recipe, item_recipes) \<Rightarrow>
             \<lambda>u. lint_recipe calculator_name recipe item_recipes) ()) = Inr ()"
      unfolding xe lint_recipe_def by (simp add: bind_run_Inr)
  qed
  from assms have "list_all (\<lambda>item. list_all (\<lambda>recipe. requirement_entries recipe \<noteq> None) (snd item))
     resources"
    by (auto simp: list_all_iff well_formed_def)
  from ensure_valid_requirements_returns[OF this]
  have 2: "snd (ensure_valid_requirements resources) = Inr ()" .
  from 1 2 show ?thesis
    unfolding sanity_checks_def
    by (cases "fold_run (\<lambda>(recipe, item_recipes) u. lint_recipe calculator_name recipe item_recipes)
          resources ()") (simp add: bind_run_Inr)
qed

end
